theory Spec2Isabelle
  imports Complex_Main
begin

text \<open>
  The GDP waterfall chart of the repository, as far as its data goes: the numeric
  normalizer \<open>parseNum\<close>, the inference of the columns, the cleaning of the rows, and the
  construction of the waterfall items.  Rendering is left out.

  The repository holds several variants of the script.  Two of them are modelled:
  \<^item> the first script of \<open>script.js\<close> (its lines 1 to 234), which filters the rows with
    an invalid GDP in \<open>buildWaterfall\<close> and computes the bars by accumulation in
    \<open>draw\<close>;
  \<^item> the variant with \<open>computeWaterfall\<close> and \<open>drawForCountry\<close>, which reads the year
    with \<open>parseInt\<close>, keeps every row and takes the start and end of a bar from the GDP
    values themselves.

  \<open>parseNum\<close> is the same function in all variants.  The functions of the language and
  of the D3 library that the scripts call (\<open>trim\<close>, \<open>parseFloat\<close>, \<open>parseInt\<close>, the unary
  \<open>+\<close>, \<open>Array.prototype.sort\<close>, \<open>d3.group\<close>, the row objects of \<open>d3.dsvFormat\<close>) are
  modelled as far as the scripts use them.  The parse of the table apart (\<open>dsv_parse\<close>),
  no step of the modelled functions can throw, so they are total functions without an
  error value; \<open>undefined\<close> is \<open>None\<close>.
\<close>

section \<open>JavaScript numbers\<close>

text \<open>
  A JavaScript Number is an IEEE-754 binary64 value.  The finite non-zero values and
  positive zero are represented by the rational number they denote (\<open>Fin 0\<close> is \<open>+0\<close>);
  negative zero, the two infinities and NaN are separate constructors.  Arithmetic computes
  the exact rational result and rounds it to the nearest binary64 value, ties to even.
\<close>

datatype number = NaN | PosInf | NegInf | NegZero | Fin rat

definition pow2 :: "int \<Rightarrow> rat" where
  "pow2 k = (if 0 \<le> k then 2 ^ nat k else 1 / 2 ^ nat (- k))"

definition pow10 :: "int \<Rightarrow> rat" where
  "pow10 k = (if 0 \<le> k then 10 ^ nat k else 1 / 10 ^ nat (- k))"

function bit_length :: "int \<Rightarrow> int" where
  "bit_length n = (if n \<le> 0 then 0 else 1 + bit_length (n div 2))"
  by pat_completeness auto
termination
  by (relation "measure nat") auto

declare bit_length.simps [simp del]

text \<open>For \<open>x > 0\<close>, the exponent \<open>e\<close> with \<open>2 ^ e \<le> x < 2 ^ (e + 1)\<close>.\<close>

definition floor_log2 :: "rat \<Rightarrow> int" where
  "floor_log2 x = (let (p, q) = quotient_of x;
                       e0 = bit_length p - bit_length q
                   in if pow2 e0 \<le> x then e0 else e0 - 1)"

definition round_half_even :: "rat \<Rightarrow> int" where
  "round_half_even r = (let f = \<lfloor>r\<rfloor>; d = r - of_int f
                        in if d < 1/2 then f else if 1/2 < d then f + 1
                           else if even f then f else f + 1)"

text \<open>
  Rounding of a positive magnitude to 53 significant bits; below \<open>2 ^ (-1022)\<close> the spacing
  is that of the subnormal numbers, \<open>2 ^ (-1074)\<close>.
\<close>

definition round_magnitude :: "rat \<Rightarrow> rat" where
  "round_magnitude a = (let u = max (floor_log2 a) (- 1022) - 52
                        in of_int (round_half_even (a / pow2 u)) * pow2 u)"

definition round_double :: "rat \<Rightarrow> number" where
  "round_double x =
     (let y = round_magnitude \<bar>x\<bar>
      in if x < 0 then (if 2 ^ 1024 \<le> y then NegInf else if y = 0 then NegZero else Fin (- y))
         else (if 2 ^ 1024 \<le> y then PosInf else Fin y))"

fun js_neg :: "number \<Rightarrow> number" where
  "js_neg NaN = NaN"
| "js_neg PosInf = NegInf"
| "js_neg NegInf = PosInf"
| "js_neg NegZero = Fin 0"
| "js_neg (Fin r) = (if r = 0 then NegZero else Fin (- r))"

text \<open>The rational denoted by a finite number (both zeros denote 0).\<close>

fun val :: "number \<Rightarrow> rat" where
  "val (Fin r) = r"
| "val _ = 0"

fun js_isNaN :: "number \<Rightarrow> bool" where
  "js_isNaN NaN = True"
| "js_isNaN _ = False"

fun js_isFinite :: "number \<Rightarrow> bool" where
  "js_isFinite NaN = False"
| "js_isFinite PosInf = False"
| "js_isFinite NegInf = False"
| "js_isFinite _ = True"

text \<open>
  \<open>x + y\<close>.  An exact sum of zero is \<open>+0\<close> unless both operands are \<open>-0\<close>.
\<close>

definition js_add :: "number \<Rightarrow> number \<Rightarrow> number" where
  "js_add x y =
     (if js_isNaN x \<or> js_isNaN y then NaN
      else if x = PosInf then (if y = NegInf then NaN else PosInf)
      else if x = NegInf then (if y = PosInf then NaN else NegInf)
      else if y = PosInf then PosInf
      else if y = NegInf then NegInf
      else if val x + val y = 0 then (if x = NegZero \<and> y = NegZero then NegZero else Fin 0)
      else round_double (val x + val y))"

text \<open>\<open>x - y\<close> is \<open>x + (-y)\<close> in IEEE-754 arithmetic.\<close>

definition js_sub :: "number \<Rightarrow> number \<Rightarrow> number" where
  "js_sub x y = js_add x (js_neg y)"

text \<open>\<open>x < y\<close> and \<open>x >= y\<close>: both are false when an operand is NaN.\<close>

fun js_lt :: "number \<Rightarrow> number \<Rightarrow> bool" where
  "js_lt NaN _ = False"
| "js_lt _ NaN = False"
| "js_lt PosInf _ = False"
| "js_lt _ NegInf = False"
| "js_lt _ PosInf = True"
| "js_lt NegInf _ = True"
| "js_lt x y = (val x < val y)"

definition js_ge :: "number \<Rightarrow> number \<Rightarrow> bool" where
  "js_ge x y = (\<not> js_isNaN x \<and> \<not> js_isNaN y \<and> \<not> js_lt x y)"

text \<open>Strict equality \<open>x === y\<close> on numbers: NaN equals nothing, the two zeros are equal.\<close>

definition js_eq :: "number \<Rightarrow> number \<Rightarrow> bool" where
  "js_eq x y = (\<not> js_isNaN x \<and> \<not> js_isNaN y \<and>
                (x = y \<or> (x = NegZero \<and> y = Fin 0) \<or> (x = Fin 0 \<and> y = NegZero)))"

text \<open>Truthiness of a number: NaN and the two zeros are falsy.  \<open>x || d\<close> on numbers.\<close>

definition truthy_num :: "number \<Rightarrow> bool" where
  "truthy_num x = (\<not> js_isNaN x \<and> x \<noteq> Fin 0 \<and> x \<noteq> NegZero)"

definition num_or :: "number \<Rightarrow> number \<Rightarrow> number" where
  "num_or x d = (if truthy_num x then x else d)"

section \<open>JavaScript strings\<close>

text \<open>
  A string is a list of characters.  Isabelle characters are 8 bits wide, so the model
  covers strings of code units below 256; the white space of \<open>trim\<close> and of the class
  \<open>\s\<close> in that range is tab, line feed, vertical tab, form feed, carriage return,
  space and no-break space.
\<close>

definition is_space :: "char \<Rightarrow> bool" where
  "is_space c = (c \<in> set [CHR 0x09, CHR 0x0A, CHR 0x0B, CHR 0x0C, CHR 0x0D, CHR 0x20, CHR 0xA0])"

definition js_trim :: "string \<Rightarrow> string" where
  "js_trim s = rev (dropWhile is_space (rev (dropWhile is_space s)))"

definition lower_char :: "char \<Rightarrow> char" where
  "lower_char c = (let n = (of_char c :: nat)
                   in if (65 \<le> n \<and> n \<le> 90) \<or> (192 \<le> n \<and> n \<le> 222 \<and> n \<noteq> 215)
                      then char_of (n + 32) else c)"

definition toLowerCase :: "string \<Rightarrow> string" where
  "toLowerCase s = map lower_char s"

text \<open>
  \<open>s.replace(/[class]/g, rep)\<close> for a regular expression that is one character class:
  every character of the class is replaced by \<open>rep\<close>.
\<close>

definition replace_all :: "(char \<Rightarrow> bool) \<Rightarrow> string \<Rightarrow> string \<Rightarrow> string" where
  "replace_all cls rep s = concat (map (\<lambda>c. if cls c then rep else [c]) s)"

text \<open>
  \<open>/pat/i.test(k)\<close> for a pattern of ASCII letters: \<open>k\<close> has a substring equal to the
  pattern up to the case of ASCII letters.  (Without the \<open>u\<close> flag no character outside
  ASCII is folded to an ASCII letter.)
\<close>

definition ascii_lower :: "char \<Rightarrow> char" where
  "ascii_lower c = (let n = (of_char c :: nat)
                    in if 65 \<le> n \<and> n \<le> 90 then char_of (n + 32) else c)"

fun starts_with_ci :: "string \<Rightarrow> string \<Rightarrow> bool" where
  "starts_with_ci [] k = True"
| "starts_with_ci (p # ps) [] = False"
| "starts_with_ci (p # ps) (c # cs) = (ascii_lower c = p \<and> starts_with_ci ps cs)"

fun regex_test_ci :: "string \<Rightarrow> string \<Rightarrow> bool" where
  "regex_test_ci pat [] = (pat = [])"
| "regex_test_ci pat (c # cs) = (starts_with_ci pat (c # cs) \<or> regex_test_ci pat cs)"

subsection \<open>Numeric literals\<close>

definition is_digit :: "char \<Rightarrow> bool" where
  "is_digit c = (c \<in> set ''0123456789'')"

text \<open>The value of a digit in a radix up to 36; 36 for a character that is no digit.\<close>

definition digit_val :: "char \<Rightarrow> int" where
  "digit_val c = (let n = (of_char c :: int)
                  in if 48 \<le> n \<and> n \<le> 57 then n - 48
                     else if 97 \<le> n \<and> n \<le> 122 then n - 87
                     else if 65 \<le> n \<and> n \<le> 90 then n - 55
                     else 36)"

definition is_radix_digit :: "int \<Rightarrow> char \<Rightarrow> bool" where
  "is_radix_digit R c = (digit_val c < R)"

definition digits_value :: "int \<Rightarrow> string \<Rightarrow> int" where
  "digits_value R ds = foldl (\<lambda>a c. R * a + digit_val c) 0 ds"

definition split_sign :: "string \<Rightarrow> bool \<times> string" where
  "split_sign s = (case s of
      [] \<Rightarrow> (False, s)
    | c # cs \<Rightarrow> if c = CHR ''-'' then (True, cs)
               else if c = CHR ''+'' then (False, cs) else (False, s))"

text \<open>
  The number for sign \<open>neg\<close>, digits of value \<open>n\<close> and decimal exponent \<open>k\<close>:
  \<open>n * 10 ^ k\<close> rounded to binary64, a zero keeping the sign.
\<close>

definition mk_decimal :: "bool \<Rightarrow> int \<Rightarrow> int \<Rightarrow> number" where
  "mk_decimal neg n k =
     (if n = 0 then (if neg then NegZero else Fin 0)
      else round_double ((if neg then - 1 else 1) * of_int n * pow10 k))"

text \<open>
  An exponent part \<open>e\<close> or \<open>E\<close>, an optional sign and at least one digit, at the head of
  \<open>r\<close>: its value and the rest.  Without a complete exponent part nothing is consumed.
\<close>

definition exponent_part :: "string \<Rightarrow> int \<times> string" where
  "exponent_part r = (case r of
      [] \<Rightarrow> (0, r)
    | c # r1 \<Rightarrow>
        if c = CHR ''e'' \<or> c = CHR ''E'' then
          (let (neg, r2) = split_sign r1; ds = takeWhile is_digit r2
           in if ds = [] then (0, r)
              else (if neg then - digits_value 10 ds else digits_value 10 ds,
                    dropWhile is_digit r2))
        else (0, r))"

text \<open>
  The longest prefix of \<open>s\<close> that is a \<open>StrDecimalLiteral\<close> (an optional sign, then
  \<open>Infinity\<close>, or digits with an optional fraction and exponent, or a fraction starting
  with the point): its number and the rest of \<open>s\<close>; \<open>None\<close> when no prefix is one.
\<close>

definition str_decimal_literal :: "string \<Rightarrow> (number \<times> string) option" where
  "str_decimal_literal s =
     (let (neg, u) = split_sign s
      in if take 8 u = ''Infinity'' then Some (if neg then NegInf else PosInf, drop 8 u)
         else
           let ip = takeWhile is_digit u;
               r1 = dropWhile is_digit u;
               (fp, r2) = (case r1 of
                             [] \<Rightarrow> ([], r1)
                           | c # r \<Rightarrow> if c = CHR ''.''
                                      then (takeWhile is_digit r, dropWhile is_digit r)
                                      else ([], r1))
           in if ip = [] \<and> fp = [] then None
              else let (ex, r3) = exponent_part r2
                   in Some (mk_decimal neg (digits_value 10 (ip @ fp)) (ex - int (length fp)), r3))"

text \<open>\<open>parseFloat(s)\<close>: leading white space is skipped, trailing text is ignored.\<close>

definition parseFloat :: "string \<Rightarrow> number" where
  "parseFloat s = (case str_decimal_literal (dropWhile is_space s) of
                     None \<Rightarrow> NaN
                   | Some (n, rest) \<Rightarrow> n)"

text \<open>A hexadecimal, octal or binary integer literal \<open>0x..\<close>, \<open>0o..\<close>, \<open>0b..\<close>.\<close>

definition non_decimal_literal :: "string \<Rightarrow> number option" where
  "non_decimal_literal t = (case t of
      z # x # ds \<Rightarrow>
        (let R = (if x \<in> set ''xX'' then 16 else if x \<in> set ''oO'' then 8
                  else if x \<in> set ''bB'' then 2 else (0::int))
         in if z = CHR ''0'' \<and> ds \<noteq> [] \<and> R \<noteq> 0 \<and> list_all (is_radix_digit R) ds
            then Some (mk_decimal False (digits_value R ds) 0) else None)
    | _ \<Rightarrow> None)"

text \<open>
  The conversion of a string to a number, as the unary \<open>+\<close> does it: the trimmed string
  must be a numeric literal as a whole; the empty string is \<open>+0\<close>.
\<close>

definition string_to_number :: "string \<Rightarrow> number" where
  "string_to_number s =
     (let t = js_trim s
      in if t = [] then Fin 0
         else case non_decimal_literal t of
                Some n \<Rightarrow> n
              | None \<Rightarrow> (case str_decimal_literal t of
                           Some (n, []) \<Rightarrow> n
                         | _ \<Rightarrow> NaN))"

text \<open>\<open>+v\<close> for a value that is a string or \<open>undefined\<close> (\<open>None\<close>).\<close>

definition unary_plus :: "string option \<Rightarrow> number" where
  "unary_plus v = (case v of None \<Rightarrow> NaN | Some s \<Rightarrow> string_to_number s)"

text \<open>
  \<open>parseInt(s)\<close> without a radix: leading white space and a sign are skipped, a prefix
  \<open>0x\<close> selects radix 16, and the longest run of digits is read.
\<close>

definition parseInt :: "string \<Rightarrow> number" where
  "parseInt s =
     (let (neg, u) = split_sign (dropWhile is_space s);
          (R, w) = (if take 2 u = ''0x'' \<or> take 2 u = ''0X'' then (16, drop 2 u) else (10, u));
          z = takeWhile (is_radix_digit R) w
      in if z = [] then NaN else mk_decimal neg (digits_value R z) 0)"

section \<open>The numeric normalizer\<close>

text \<open>
  \<open>parseNum\<close> of \<open>script.js\<close> (the same function in every variant of the script).
  The argument is a field of a parsed row: a string, or \<open>undefined\<close> (\<open>None\<close>) when the
  row has no such column.
\<close>

definition parseNum :: "string option \<Rightarrow> number" where
  "parseNum s =
     (case s of
        None \<Rightarrow> NaN
      | Some str \<Rightarrow>
          let v = js_trim str
          in if v = [] \<or> toLowerCase v = ''nan'' then NaN
             else
               let v1 = replace_all (\<lambda>c. c = CHR '','') ''.'' (replace_all is_space [] v);
                   v2 = replace_all (\<lambda>c. c \<notin> set ''0123456789eE+.-'') [] v1;
                   n = parseFloat v2
               in if js_isFinite n then n else NaN)"

section \<open>Parsed rows and column inference (\<open>script.js\<close>)\<close>

text \<open>
  A row object is the association list of its own properties, each name once, in the order
  in which they were created.

  \<open>d3.dsvFormat(";").parse\<close> compiles the header into a function whose body is one object
  literal with a property \<open>"name": d[i] || ""\<close> per column, and applies it to the fields
  \<open>d\<close> of every line below the header.  In an object literal a name that occurs again
  keeps its place and takes the later value; the name \<open>__proto__\<close> sets the prototype,
  which a string value leaves alone, and creates no property.
\<close>

type_synonym raw_row = "(string \<times> string) list"

text \<open>\<open>d[i] || ""\<close>: the field, or the empty string when the line has no such field.\<close>

definition field_or_empty :: "string list \<Rightarrow> nat \<Rightarrow> string" where
  "field_or_empty d i = (if i < length d then d ! i else [])"

fun define_property :: "string \<Rightarrow> string \<Rightarrow> raw_row \<Rightarrow> raw_row" where
  "define_property k v [] = [(k, v)]"
| "define_property k v ((k', v') # r) =
     (if k' = k then (k, v) # r else (k', v') # define_property k v r)"

definition dsv_row :: "string list \<Rightarrow> string list \<Rightarrow> raw_row" where
  "dsv_row header d =
     foldl (\<lambda>r (k, v). if k = ''__proto__'' then r else define_property k v r) []
           (zip header (map (field_or_empty d) [0 ..< length header]))"

text \<open>
  An object literal with the name \<open>__proto__\<close> twice is a syntax error: for such a header
  the parse throws (\<open>None\<close>), the \<open>catch\<close> of the script reports it and nothing is built.
\<close>

definition dsv_parse :: "string list \<Rightarrow> string list list \<Rightarrow> raw_row list option" where
  "dsv_parse header lines =
     (if 1 < length (filter (\<lambda>k. k = ''__proto__'') header) then None
      else Some (map (dsv_row header) lines))"

text \<open>
  \<open>Object.keys(r)\<close>: first the names that are array indices (the decimal numerals of the
  integers from 0 to \<open>2 ^ 32 - 2\<close>, without a leading zero) in ascending numeric order,
  then the other names in the order of their creation.
\<close>

definition is_array_index :: "string \<Rightarrow> bool" where
  "is_array_index k =
     (k \<noteq> [] \<and> list_all is_digit k \<and> (if hd k = CHR ''0'' then k = ''0'' else True) \<and>
      digits_value 10 k < 4294967295)"

definition object_keys :: "raw_row \<Rightarrow> string list" where
  "object_keys r =
     (let ks = map fst r
      in sort_key (digits_value 10) (filter is_array_index ks) @
         filter (\<lambda>k. \<not> is_array_index k) ks)"

text \<open>
  \<open>r[k]\<close>, where the key \<open>k\<close> may be \<open>undefined\<close> (\<open>None\<close>): the property name is then
  the string \<open>undefined\<close>.  The result is \<open>undefined\<close> (\<open>None\<close>) when \<open>r\<close> has no such
  property.  The keys that the scripts use are own keys of the first row, \<open>undefined\<close>, or
  the literal defaults \<open>Country Name\<close>, \<open>Year\<close> and \<open>GDP\<close>; none of them names a
  property that a row inherits from \<open>Object.prototype\<close> without having it as its own.
\<close>

definition js_get :: "raw_row \<Rightarrow> string option \<Rightarrow> string option" where
  "js_get r k = map_of r (case k of None \<Rightarrow> ''undefined'' | Some name \<Rightarrow> name)"

text \<open>Truthiness of a string or \<open>undefined\<close>, and \<open>a || b\<close> on such values.\<close>

definition truthy_str :: "string option \<Rightarrow> bool" where
  "truthy_str v = (case v of None \<Rightarrow> False | Some s \<Rightarrow> s \<noteq> [])"

definition str_or :: "string option \<Rightarrow> string option \<Rightarrow> string option" where
  "str_or a b = (if truthy_str a then a else b)"

text \<open>\<open>keys[i]\<close>: \<open>undefined\<close> out of range.\<close>

definition js_nth :: "'a list \<Rightarrow> nat \<Rightarrow> 'a option" where
  "js_nth xs i = (if i < length xs then Some (xs ! i) else None)"

text \<open>
  The three keys are chosen from the keys of the first row (\<open>data[0]\<close>), here \<open>r0\<close>.
  \<open>/^GDP$/i\<close> matches exactly the names equal to \<open>gdp\<close> up to case.
\<close>

definition countryKey :: "raw_row \<Rightarrow> string option" where
  "countryKey r0 = str_or (find (regex_test_ci ''country'') (object_keys r0))
                          (js_nth (object_keys r0) 1)"

definition yearKey :: "raw_row \<Rightarrow> string option" where
  "yearKey r0 = str_or (find (regex_test_ci ''year'') (object_keys r0))
                       (find (\<lambda>k. regex_test_ci ''yr'' k \<or> regex_test_ci ''year'' k) (object_keys r0))"

definition gdpKey :: "raw_row \<Rightarrow> string option" where
  "gdpKey r0 = str_or (find (\<lambda>k. map ascii_lower k = ''gdp'') (object_keys r0))
                      (find (regex_test_ci ''gdp'') (object_keys r0))"

record row =
  country :: "string option"
  year :: number
  GDP :: number
  raw :: raw_row

definition mk_row :: "string option \<Rightarrow> string option \<Rightarrow> string option \<Rightarrow> raw_row \<Rightarrow> row" where
  "mk_row ck yk gk r =
     \<lparr>country = js_get r ck, year = unary_plus (js_get r yk), GDP = parseNum (js_get r gk), raw = r\<rparr>"

definition keep_row :: "row \<Rightarrow> bool" where
  "keep_row r = (truthy_str (country r) \<and> \<not> js_isNaN (year r))"

text \<open>
  \<open>rows = data.map(...).filter(...)\<close>.  On an empty \<open>data\<close> the script shows an alert and
  stops before it reads \<open>data[0]\<close>: nothing is built.
\<close>

definition rows :: "raw_row list \<Rightarrow> row list" where
  "rows data = (case data of
      [] \<Rightarrow> []
    | r0 # rest \<Rightarrow> filter keep_row (map (mk_row (countryKey r0) (yearKey r0) (gdpKey r0)) data))"

section \<open>Grouping and sorting\<close>

text \<open>
  \<open>d3.group(rows, d => d.country).get(c)\<close>: the rows of country \<open>c\<close> in their order, or
  \<open>undefined\<close> (\<open>None\<close>) when there is none.
\<close>

definition grouped_get :: "row list \<Rightarrow> string \<Rightarrow> row list option" where
  "grouped_get rws c = (let g = filter (\<lambda>d. country d = Some c) rws
                        in if g = [] then None else Some g)"

text \<open>
  \<open>Array.prototype.sort\<close> with a comparator is stable: an element moves behind another
  one only when the comparator, called on the two, is positive (NaN counts as 0).
\<close>

fun insert_by :: "('a \<Rightarrow> 'a \<Rightarrow> number) \<Rightarrow> 'a \<Rightarrow> 'a list \<Rightarrow> 'a list" where
  "insert_by cmp x [] = [x]"
| "insert_by cmp x (y # ys) =
     (if js_lt (Fin 0) (cmp x y) then y # insert_by cmp x ys else x # y # ys)"

definition js_sort :: "('a \<Rightarrow> 'a \<Rightarrow> number) \<Rightarrow> 'a list \<Rightarrow> 'a list" where
  "js_sort cmp xs = foldr (insert_by cmp) xs []"

section \<open>The waterfall of \<open>script.js\<close>\<close>

datatype item_type = Base | Start | Increase | Decrease

text \<open>
  An item of \<open>buildWaterfall\<close>.  The field \<open>label\<close> (the year as text on the axis) is
  left out.  \<open>Base\<close> is the type \<open>"base"\<close> of \<open>script.js\<close>, \<open>Start\<close> the type
  \<open>"start"\<close> of the variant with \<open>computeWaterfall\<close>.
\<close>

record item =
  item_year :: number
  item_value :: number
  item_type :: item_type

definition buildWaterfall :: "row list \<Rightarrow> string \<Rightarrow> item list" where
  "buildWaterfall rws c =
     (let arr = js_sort (\<lambda>a b. js_sub (year a) (year b))
                  (case grouped_get rws c of None \<Rightarrow> [] | Some g \<Rightarrow> g);
          valid = filter (\<lambda>d. \<not> js_isNaN (GDP d)) arr
      in if length valid = 0 then []
         else
           \<lparr>item_year = year (valid ! 0), item_value = GDP (valid ! 0), item_type = Base\<rparr> #
           map (\<lambda>i. let prev = valid ! (i - 1);
                         cur = valid ! i;
                         delta = js_sub (GDP cur) (GDP prev)
                     in \<lparr>item_year = year cur, item_value = delta,
                         item_type = (if js_ge delta (Fin 0) then Increase else Decrease)\<rparr>)
               [1 ..< length valid])"

text \<open>The pass of \<open>draw\<close> that computes the bars; \<open>cum\<close> is the variable of that name.\<close>

record computed = item +
  bar_start :: number
  bar_end :: number
  cumulative :: number

fun compute_pass :: "nat \<Rightarrow> number \<Rightarrow> item list \<Rightarrow> computed list" where
  "compute_pass i cum [] = []"
| "compute_pass i cum (it # its) =
     (if i = 0 then
        (let start = Fin 0;
             end' = (if js_isFinite (item_value it) then item_value it else Fin 0)
         in \<lparr>item_year = item_year it, item_value = item_value it, item_type = item_type it,
             bar_start = start, bar_end = end', cumulative = end'\<rparr> # compute_pass (i + 1) end' its)
      else
        (let start = cum;
             end' = js_add cum (if js_isFinite (item_value it) then item_value it else Fin 0)
         in \<lparr>item_year = item_year it, item_value = item_value it, item_type = item_type it,
             bar_start = start, bar_end = end', cumulative = end'\<rparr> # compute_pass (i + 1) end' its))"

text \<open>
  \<open>draw(country)\<close> up to the computed bars: \<open>None\<close> when there is no item and the
  "no data" title is shown instead of a chart.
\<close>

definition draw :: "row list \<Rightarrow> string \<Rightarrow> computed list option" where
  "draw rws c = (let items = buildWaterfall rws c
                 in if length items = 0 then None else Some (compute_pass 0 (Fin 0) items))"

section \<open>The variant with \<open>computeWaterfall\<close>\<close>

text \<open>
  The cleaned rows of this variant: the country is trimmed, the year is read by
  \<open>parseInt\<close>.  Its three keys always are strings (each has a literal default).
\<close>

record cleaned =
  c_country :: string
  c_year :: number
  gdp :: number

text \<open>\<open>v || d\<close> for a value \<open>v\<close> that is a string or \<open>undefined\<close> and a string \<open>d\<close>.\<close>

definition str_or_default :: "string option \<Rightarrow> string \<Rightarrow> string" where
  "str_or_default v d = (case v of None \<Rightarrow> d | Some s \<Rightarrow> if s \<noteq> [] then s else d)"

definition mk_cleaned :: "string \<Rightarrow> string \<Rightarrow> string \<Rightarrow> raw_row \<Rightarrow> cleaned" where
  "mk_cleaned ck yk gk r =
     \<lparr>c_country = (case js_get r (Some ck) of
                     None \<Rightarrow> []
                   | Some s \<Rightarrow> if s \<noteq> [] then js_trim s else []),
      c_year = num_or (parseInt (js_trim (str_or_default (js_get r (Some yk)) []))) NaN,
      gdp = parseNum (js_get r (Some gk))\<rparr>"

definition clean_rows :: "string \<Rightarrow> string \<Rightarrow> string \<Rightarrow> raw_row list \<Rightarrow> cleaned list" where
  "clean_rows ck yk gk data =
     filter (\<lambda>d. c_country d \<noteq> [] \<and> \<not> js_isNaN (c_year d)) (map (mk_cleaned ck yk gk) data)"

record wf_item =
  wf_type :: item_type
  wf_year :: number
  wf_value :: number
  wf_start :: number
  wf_end :: number

definition computeWaterfall :: "cleaned list \<Rightarrow> wf_item list" where
  "computeWaterfall dataSorted =
     (if length dataSorted = 0 then []
      else
        (let cum = num_or (gdp (dataSorted ! 0)) (Fin 0)
         in \<lparr>wf_type = Start, wf_year = c_year (dataSorted ! 0), wf_value = gdp (dataSorted ! 0),
              wf_start = Fin 0, wf_end = cum\<rparr> #
            map (\<lambda>i. let prev = num_or (gdp (dataSorted ! (i - 1))) (Fin 0);
                          cur = num_or (gdp (dataSorted ! i)) (Fin 0);
                          delta = js_sub cur prev
                      in \<lparr>wf_type = (if js_ge delta (Fin 0) then Increase else Decrease),
                          wf_year = c_year (dataSorted ! i), wf_value = delta,
                          wf_start = prev, wf_end = cur\<rparr>)
                [1 ..< length dataSorted]))"

text \<open>
  \<open>drawForCountry(countryName)\<close> up to the items.  \<open>rws\<close> is
  \<open>Array.from(byCountry.get(countryName) || [])\<close>, the cleaned rows of that country; the
  result is \<open>None\<close> when there are none and the "no data" text is shown.
\<close>

definition drawForCountry :: "cleaned list \<Rightarrow> string \<Rightarrow> wf_item list option" where
  "drawForCountry cl c =
     (let rws = filter (\<lambda>d. c_country d = c) cl
      in if length rws = 0 then None
         else Some (computeWaterfall (js_sort (\<lambda>a b. js_sub (c_year a) (c_year b)) rws)))"

section \<open>Notions used in the statements\<close>

text \<open>The value that \<open>draw\<close> adds for an item: its value when finite, else 0.\<close>

definition fin_or_zero :: "number \<Rightarrow> number" where
  "fin_or_zero v = (if js_isFinite v then v else Fin 0)"

text \<open>The first item and the item pushed by the loop of \<open>buildWaterfall\<close>.\<close>

definition base_item :: "row \<Rightarrow> item" where
  "base_item d = \<lparr>item_year = year d, item_value = GDP d, item_type = Base\<rparr>"

definition delta_item :: "row \<Rightarrow> row \<Rightarrow> item" where
  "delta_item prev cur =
     \<lparr>item_year = year cur, item_value = js_sub (GDP cur) (GDP prev),
      item_type = (if js_ge (js_sub (GDP cur) (GDP prev)) (Fin 0) then Increase else Decrease)\<rparr>"

text \<open>The first item and the item pushed by the loop of \<open>computeWaterfall\<close>.\<close>

definition start_item :: "cleaned \<Rightarrow> wf_item" where
  "start_item d = \<lparr>wf_type = Start, wf_year = c_year d, wf_value = gdp d,
                    wf_start = Fin 0, wf_end = num_or (gdp d) (Fin 0)\<rparr>"

definition step_item :: "cleaned \<Rightarrow> cleaned \<Rightarrow> wf_item" where
  "step_item p d =
     \<lparr>wf_type = (if js_ge (js_sub (num_or (gdp d) (Fin 0)) (num_or (gdp p) (Fin 0))) (Fin 0)
                 then Increase else Decrease),
      wf_year = c_year d,
      wf_value = js_sub (num_or (gdp d) (Fin 0)) (num_or (gdp p) (Fin 0)),
      wf_start = num_or (gdp p) (Fin 0), wf_end = num_or (gdp d) (Fin 0)\<rparr>"

text \<open>A function applied to every pair of neighbours of the list \<open>x # xs\<close>.\<close>

fun consecutive :: "('a \<Rightarrow> 'a \<Rightarrow> 'b) \<Rightarrow> 'a \<Rightarrow> 'a list \<Rightarrow> 'b list" where
  "consecutive f x [] = []"
| "consecutive f x (y # ys) = f x y # consecutive f y ys"

text \<open>
  The rows of a country sorted by year (\<open>arr\<close> in \<open>buildWaterfall\<close>), and those of them
  with a valid GDP (\<open>valid\<close>).
\<close>

definition sorted_group :: "row list \<Rightarrow> string \<Rightarrow> row list" where
  "sorted_group rws c = js_sort (\<lambda>a b. js_sub (year a) (year b))
                          (case grouped_get rws c of None \<Rightarrow> [] | Some g \<Rightarrow> g)"

definition valid_rows :: "row list \<Rightarrow> string \<Rightarrow> row list" where
  "valid_rows rws c = filter (\<lambda>d. \<not> js_isNaN (GDP d)) (sorted_group rws c)"

text \<open>The cleaned rows of a country sorted by year (\<open>sorted\<close> in \<open>drawForCountry\<close>).\<close>

definition sorted_cleaned :: "cleaned list \<Rightarrow> string \<Rightarrow> cleaned list" where
  "sorted_cleaned cl c = js_sort (\<lambda>a b. js_sub (c_year a) (c_year b))
                           (filter (\<lambda>d. c_country d = c) cl)"

text \<open>
  Every binary64 value is an integer multiple of \<open>2 ^ (-1074)\<close>, the smallest positive
  one.  \<open>on_grid\<close> says so of a rational, \<open>grid_number\<close> of the finite numbers.
\<close>

definition on_grid :: "rat \<Rightarrow> bool" where
  "on_grid r = (of_int \<lfloor>r * pow2 1074\<rfloor> = r * pow2 1074)"

fun grid_number :: "number \<Rightarrow> bool" where
  "grid_number (Fin r) = on_grid r"
| "grid_number x = True"

text \<open>A finite number is a binary64 value when rounding leaves it as it is.\<close>

fun is_double :: "number \<Rightarrow> bool" where
  "is_double (Fin r) = (round_double r = Fin r)"
| "is_double x = True"

text \<open>
  The normalizer as the specification words it: trim; not-a-number for the empty string and
  for \<open>nan\<close> in any case; white space removed; commas turned into points; only digits,
  \<open>e\<close>, \<open>E\<close>, \<open>+\<close>, \<open>.\<close> and \<open>-\<close> kept; parsed as a float; not-a-number unless finite.
\<close>

definition spec_trim :: "string \<Rightarrow> string" where
  "spec_trim s = dropWhile is_space (rev (dropWhile is_space (rev s)))"

definition equal_ignoring_case :: "string \<Rightarrow> string \<Rightarrow> bool" where
  "equal_ignoring_case a b = list_all2 (\<lambda>x y. lower_char x = lower_char y) a b"

definition spec_normalize :: "string \<Rightarrow> number" where
  "spec_normalize s =
     (let t = spec_trim s
      in if t = [] \<or> equal_ignoring_case t ''nan'' then NaN
         else
           let no_space = filter (\<lambda>c. \<not> is_space c) t;
               pointed = map (\<lambda>c. if c = CHR '','' then CHR ''.'' else c) no_space;
               kept = filter (\<lambda>c. is_digit c \<or> c = CHR ''e'' \<or> c = CHR ''E'' \<or> c = CHR ''+'' \<or>
                                   c = CHR ''.'' \<or> c = CHR ''-'') pointed;
               n = parseFloat kept
           in if js_isFinite n then n else NaN)"







subsection \<open>Example tables\<close>

text \<open>
  The parsed rows of a table with the given header, one list of fields per line (a header
  that parses).
\<close>

definition table :: "string list \<Rightarrow> string list list \<Rightarrow> raw_row list" where
  "table header lines = map (dsv_row header) lines"

definition gdp_header :: "string list" where
  "gdp_header = [''Country Name'', ''Year'', ''GDP'']"

definition germany_data :: "raw_row list" where
  "germany_data = table gdp_header [[''Germany'', ''2000'', ''1.000,5''],
                                    [''Germany'', ''2001'', ''1100'']]"

definition rounding_data :: "raw_row list" where
  "rounding_data = table gdp_header [[''X'', ''2000'', ''1''],
                                     [''X'', ''2001'', ''9007199254740994'']]"

definition gap_data :: "raw_row list" where
  "gap_data = table gdp_header [[''X'', ''2000'', ''10''],
                                [''X'', ''2001'', ''nan''],
                                [''X'', ''2002'', ''30'']]"

definition flat_data :: "raw_row list" where
  "flat_data = table gdp_header [[''X'', ''2000'', ''10''],
                                 [''X'', ''2001'', ''10'']]"

definition updown_data :: "raw_row list" where
  "updown_data = table gdp_header [[''X'', ''2000'', ''10''],
                                   [''X'', ''2001'', ''30''],
                                   [''X'', ''2002'', ''10'']]"


definition invalid_first_data :: "raw_row list" where
  "invalid_first_data = table gdp_header [[''X'', ''2000'', ''nan''],
                                          [''X'', ''2001'', ''10'']]"

definition missing_data :: "raw_row list" where
  "missing_data = table gdp_header [[''X'', ''2000'', ''nan'']]"




definition plain_row :: raw_row where
  "plain_row = [(''a'', ''X''), (''b'', ''2000''), (''c'', ''10'')]"

definition index_row :: raw_row where
  "index_row = dsv_row [''a'', ''b'', ''1''] [''X'', ''2000'', ''10'']"



section \<open>Numbers: basic facts\<close>

lemma round_double_not_NaN: "round_double x \<noteq> NaN"
  by (simp add: round_double_def Let_def)

lemma js_isNaN_iff: "js_isNaN x \<longleftrightarrow> x = NaN"
  by (cases x) simp_all

lemma js_isFinite_not_NaN: "js_isFinite x \<Longrightarrow> \<not> js_isNaN x"
  by (cases x) simp_all

lemma js_add_not_NaN: "\<not> js_isNaN x \<Longrightarrow> js_isFinite y \<Longrightarrow> \<not> js_isNaN (js_add x y)"
  by (cases y) (auto simp: js_add_def js_isNaN_iff round_double_not_NaN)

lemma js_isFinite_neg: "js_isFinite (js_neg y) = js_isFinite y"
  by (cases y) auto

lemma js_sub_not_NaN: "\<not> js_isNaN x \<Longrightarrow> js_isFinite y \<Longrightarrow> \<not> js_isNaN (js_sub x y)"
  unfolding js_sub_def by (rule js_add_not_NaN) (simp_all add: js_isFinite_neg)

lemma js_isFinite_fin_or_zero: "js_isFinite (fin_or_zero v)"
  by (simp add: fin_or_zero_def)

lemma fin_or_zero_finite: "js_isFinite v \<Longrightarrow> fin_or_zero v = v"
  by (simp add: fin_or_zero_def)

lemma js_eq_refl: "\<not> js_isNaN x \<Longrightarrow> js_eq x x"
  by (simp add: js_eq_def)

section \<open>The loops as recursion over neighbours\<close>

lemma map_upt_consecutive:
  "map (\<lambda>i. f ((x # xs) ! (i - 1)) ((x # xs) ! i)) [1 ..< length (x # xs)] = consecutive f x xs"
proof (induction xs arbitrary: x)
  case Nil
  show ?case by simp
next
  case (Cons y ys)
  have "[1 ..< length (x # y # ys)] = 1 # map Suc [1 ..< length (y # ys)]"
    by (simp add: upt_conv_Cons map_Suc_upt del: upt_Suc)
  then have "map (\<lambda>i. f ((x # y # ys) ! (i - 1)) ((x # y # ys) ! i)) [1 ..< length (x # y # ys)]
      = f x y # map (\<lambda>i. f ((y # ys) ! (i - 1)) ((y # ys) ! i)) [1 ..< length (y # ys)]"
    by (simp add: comp_def del: upt_Suc)
  also have "\<dots> = f x y # consecutive f y ys"
    using Cons.IH [of y] by simp
  finally show ?case by simp
qed

lemma length_consecutive: "length (consecutive f x xs) = length xs"
  by (induction xs arbitrary: x) simp_all

lemma nth_consecutive:
  "i < length xs \<Longrightarrow> consecutive f x xs ! i = f ((x # xs) ! i) (xs ! i)"
proof (induction xs arbitrary: x i)
  case Nil
  then show ?case by simp
next
  case (Cons y ys)
  then show ?case by (cases i) simp_all
qed

lemma buildWaterfall_unfold:
  "buildWaterfall rws c =
     (case valid_rows rws c of
        [] \<Rightarrow> []
      | first # rest \<Rightarrow> base_item first # consecutive delta_item first rest)"
proof (cases "valid_rows rws c")
  case Nil
  then show ?thesis
    by (simp add: buildWaterfall_def valid_rows_def sorted_group_def Let_def)
next
  case (Cons first rest)
  have "map (\<lambda>i. delta_item ((first # rest) ! (i - 1)) ((first # rest) ! i))
          [1 ..< length (first # rest)] = consecutive delta_item first rest"
    by (rule map_upt_consecutive)
  with Cons show ?thesis
    by (simp add: buildWaterfall_def valid_rows_def sorted_group_def Let_def base_item_def
        delta_item_def del: upt_Suc)
qed

lemma computeWaterfall_unfold:
  "computeWaterfall ds =
     (case ds of [] \<Rightarrow> [] | d # rest \<Rightarrow> start_item d # consecutive step_item d rest)"
proof (cases ds)
  case Nil
  then show ?thesis by (simp add: computeWaterfall_def)
next
  case (Cons d rest)
  have "map (\<lambda>i. step_item ((d # rest) ! (i - 1)) ((d # rest) ! i)) [1 ..< length (d # rest)]
          = consecutive step_item d rest"
    by (rule map_upt_consecutive)
  with Cons show ?thesis
    by (simp add: computeWaterfall_def Let_def start_item_def step_item_def del: upt_Suc)
qed

lemma length_buildWaterfall: "length (buildWaterfall rws c) = length (valid_rows rws c)"
  by (simp add: buildWaterfall_unfold length_consecutive split: list.split)

lemma length_computeWaterfall: "length (computeWaterfall ds) = length ds"
  by (simp add: computeWaterfall_unfold length_consecutive split: list.split)

lemma nth_buildWaterfall:
  "0 < i \<Longrightarrow> i < length (valid_rows rws c) \<Longrightarrow>
     buildWaterfall rws c ! i = delta_item (valid_rows rws c ! (i - 1)) (valid_rows rws c ! i)"
proof (cases "valid_rows rws c")
  case Nil
  assume "i < length (valid_rows rws c)"
  with Nil show ?thesis by simp
next
  case (Cons first rest)
  assume "0 < i" and "i < length (valid_rows rws c)"
  then obtain j where j: "i = Suc j" "j < length rest"
    using Cons by (cases i) simp_all
  with Cons show ?thesis
    by (simp add: buildWaterfall_unfold nth_consecutive)
qed

lemma hd_buildWaterfall:
  "valid_rows rws c \<noteq> [] \<Longrightarrow> buildWaterfall rws c ! 0 = base_item (valid_rows rws c ! 0)"
  by (cases "valid_rows rws c") (simp_all add: buildWaterfall_unfold)

lemma nth_computeWaterfall:
  "0 < i \<Longrightarrow> i < length ds \<Longrightarrow>
     computeWaterfall ds ! i = step_item (ds ! (i - 1)) (ds ! i)"
proof (cases ds)
  case Nil
  assume "i < length ds"
  with Nil show ?thesis by simp
next
  case (Cons d rest)
  assume "0 < i" and "i < length ds"
  then obtain j where j: "i = Suc j" "j < length rest"
    using Cons by (cases i) simp_all
  with Cons show ?thesis
    by (simp add: computeWaterfall_unfold nth_consecutive)
qed

lemma hd_computeWaterfall: "ds \<noteq> [] \<Longrightarrow> computeWaterfall ds ! 0 = start_item (ds ! 0)"
  by (cases ds) (simp_all add: computeWaterfall_unfold)

lemma wf_end_computeWaterfall:
  "k < length ds \<Longrightarrow> wf_end (computeWaterfall ds ! k) = num_or (gdp (ds ! k)) (Fin 0)"
proof (cases k)
  case 0
  assume "k < length ds"
  with 0 have "ds \<noteq> []" by auto
  with 0 show ?thesis by (simp add: hd_computeWaterfall start_item_def)
next
  case (Suc j)
  assume "k < length ds"
  with Suc show ?thesis by (simp add: nth_computeWaterfall step_item_def)
qed

lemma wf_year_computeWaterfall:
  "k < length ds \<Longrightarrow> wf_year (computeWaterfall ds ! k) = c_year (ds ! k)"
proof (cases k)
  case 0
  assume "k < length ds"
  with 0 have "ds \<noteq> []" by auto
  with 0 show ?thesis by (simp add: hd_computeWaterfall start_item_def)
next
  case (Suc j)
  assume "k < length ds"
  with Suc show ?thesis by (simp add: nth_computeWaterfall step_item_def)
qed

section \<open>The cumulative pass\<close>

lemma length_compute_pass: "length (compute_pass i cum its) = length its"
  by (induction its arbitrary: i cum) (simp_all add: Let_def)

lemma compute_pass_fields:
  "k < length its \<Longrightarrow>
     item_year (compute_pass i cum its ! k) = item_year (its ! k) \<and>
     item_value (compute_pass i cum its ! k) = item_value (its ! k) \<and>
     item_type (compute_pass i cum its ! k) = item_type (its ! k) \<and>
     cumulative (compute_pass i cum its ! k) = bar_end (compute_pass i cum its ! k)"
proof (induction its arbitrary: i cum k)
  case Nil
  then show ?case by simp
next
  case (Cons it its)
  then show ?case by (cases k) (simp_all add: Let_def)
qed

lemma compute_pass_first:
  "compute_pass 0 cum (it # its) =
     \<lparr>item_year = item_year it, item_value = item_value it, item_type = item_type it,
      bar_start = Fin 0, bar_end = fin_or_zero (item_value it),
      cumulative = fin_or_zero (item_value it)\<rparr> #
     compute_pass 1 (fin_or_zero (item_value it)) its"
  by (simp add: Let_def fin_or_zero_def)

lemma compute_pass_next:
  "0 < i \<Longrightarrow> compute_pass i cum (it # its) =
     \<lparr>item_year = item_year it, item_value = item_value it, item_type = item_type it,
      bar_start = cum, bar_end = js_add cum (fin_or_zero (item_value it)),
      cumulative = js_add cum (fin_or_zero (item_value it))\<rparr> #
     compute_pass (i + 1) (js_add cum (fin_or_zero (item_value it))) its"
  by (simp add: Let_def fin_or_zero_def)

declare compute_pass.simps(2) [simp del]

lemma compute_pass_not_NaN:
  "0 < i \<Longrightarrow> \<not> js_isNaN cum \<Longrightarrow> k < length its \<Longrightarrow>
     \<not> js_isNaN (bar_end (compute_pass i cum its ! k))"
proof (induction its arbitrary: i cum k)
  case Nil
  then show ?case by simp
next
  case (Cons it its)
  have fin: "\<not> js_isNaN (js_add cum (fin_or_zero (item_value it)))"
    using Cons.prems(2) by (simp add: js_add_not_NaN js_isFinite_fin_or_zero)
  show ?case
  proof (cases k)
    case 0
    with Cons.prems fin show ?thesis by (simp add: compute_pass_next)
  next
    case (Suc j)
    with Cons.prems have "j < length its" by simp
    from Cons.IH [OF _ fin this, of "i + 1"] Suc Cons.prems(1) show ?thesis
      by (simp add: compute_pass_next)
  qed
qed

lemma compute_pass_start:
  "0 < i \<Longrightarrow> k < length its \<Longrightarrow>
     bar_start (compute_pass i cum its ! k) =
       (if k = 0 then cum else bar_end (compute_pass i cum its ! (k - 1)))"
proof (induction its arbitrary: i cum k)
  case Nil
  then show ?case by simp
next
  case (Cons it its)
  show ?case
  proof (cases k)
    case 0
    with Cons.prems show ?thesis by (simp add: compute_pass_next)
  next
    case (Suc j)
    with Cons.prems have j: "j < length its" by simp
    have "bar_start (compute_pass (i + 1) (js_add cum (fin_or_zero (item_value it))) its ! j) =
       (if j = 0 then js_add cum (fin_or_zero (item_value it))
        else bar_end (compute_pass (i + 1) (js_add cum (fin_or_zero (item_value it))) its ! (j - 1)))"
      by (rule Cons.IH) (use j in simp_all)
    with Suc Cons.prems(1) show ?thesis
      by (cases j) (simp_all add: compute_pass_next)
  qed
qed

lemma compute_pass_end:
  "0 < i \<Longrightarrow> k < length its \<Longrightarrow>
     bar_end (compute_pass i cum its ! k) =
       js_add (bar_start (compute_pass i cum its ! k)) (fin_or_zero (item_value (its ! k)))"
proof (induction its arbitrary: i cum k)
  case Nil
  then show ?case by simp
next
  case (Cons it its)
  show ?case
  proof (cases k)
    case 0
    with Cons.prems show ?thesis by (simp add: compute_pass_next)
  next
    case (Suc j)
    with Cons.prems have j: "j < length its" by simp
    from Cons.IH [OF _ j, of "i + 1"] Suc Cons.prems(1) show ?thesis
      by (simp add: compute_pass_next)
  qed
qed

lemma draw_unfold:
  "draw rws c = (if valid_rows rws c = [] then None
                 else Some (compute_pass 0 (Fin 0) (buildWaterfall rws c)))"
  using length_buildWaterfall [of rws c] by (auto simp: draw_def Let_def)

lemma compute_pass_zero_head:
  assumes "its \<noteq> []"
  shows "bar_start (compute_pass 0 cum its ! 0) = Fin 0"
    and "bar_end (compute_pass 0 cum its ! 0) = fin_or_zero (item_value (its ! 0))"
  using assms by (cases its; simp add: compute_pass_first)+

lemma compute_pass_zero_chain:
  assumes "0 < i" and "i < length its"
  shows "bar_start (compute_pass 0 cum its ! i) = bar_end (compute_pass 0 cum its ! (i - 1))"
    and "\<not> js_isNaN (bar_end (compute_pass 0 cum its ! (i - 1)))"
    and "bar_end (compute_pass 0 cum its ! i) =
           js_add (bar_start (compute_pass 0 cum its ! i)) (fin_or_zero (item_value (its ! i)))"
proof -
  obtain it rest where its: "its = it # rest"
    using assms(2) by (cases its) auto
  obtain k where k: "i = Suc k" "k < length rest"
    using assms its by (cases i) auto
  have fin: "\<not> js_isNaN (fin_or_zero (item_value it))"
    by (simp add: js_isFinite_not_NaN js_isFinite_fin_or_zero)
  show "bar_start (compute_pass 0 cum its ! i) = bar_end (compute_pass 0 cum its ! (i - 1))"
    using k its compute_pass_start [of 1 k rest "fin_or_zero (item_value it)"]
    by (cases k) (simp_all add: compute_pass_first)
  show "\<not> js_isNaN (bar_end (compute_pass 0 cum its ! (i - 1)))"
  proof (cases k)
    case 0
    with k its fin show ?thesis by (simp add: compute_pass_first)
  next
    case (Suc j)
    with k have "j < length rest" by simp
    from compute_pass_not_NaN [OF _ fin this, of 1] Suc k its show ?thesis
      by (simp add: compute_pass_first)
  qed
  show "bar_end (compute_pass 0 cum its ! i) =
           js_add (bar_start (compute_pass 0 cum its ! i)) (fin_or_zero (item_value (its ! i)))"
    using k its compute_pass_end [of 1 k rest "fin_or_zero (item_value it)"]
    by (simp add: compute_pass_first)
qed

section \<open>Kinds\<close>

lemma js_lt_not_ge: "js_lt x y \<Longrightarrow> \<not> js_ge x y"
  by (simp add: js_ge_def)

lemma js_ge_zero: "js_eq v (Fin 0) \<Longrightarrow> js_ge v (Fin 0)"
  by (auto simp: js_eq_def js_ge_def)

lemma delta_item_kind:
  "(js_ge (item_value (delta_item p d)) (Fin 0) \<longrightarrow> item_type (delta_item p d) = Increase) \<and>
   (js_lt (item_value (delta_item p d)) (Fin 0) \<longrightarrow> item_type (delta_item p d) = Decrease) \<and>
   item_type (delta_item p d) \<noteq> Base"
  by (simp add: delta_item_def js_lt_not_ge)

lemma step_item_kind:
  "(js_ge (wf_value (step_item p d)) (Fin 0) \<longrightarrow> wf_type (step_item p d) = Increase) \<and>
   (js_lt (wf_value (step_item p d)) (Fin 0) \<longrightarrow> wf_type (step_item p d) = Decrease) \<and>
   wf_type (step_item p d) \<noteq> Start"
  by (simp add: step_item_def js_lt_not_ge)

section \<open>What the parsing stage guarantees\<close>

lemma parseNum_finite_or_NaN: "js_isFinite (parseNum s) = (\<not> js_isNaN (parseNum s))"
  by (auto simp: parseNum_def Let_def js_isFinite_not_NaN split: option.split)

lemma set_insert_by: "set (insert_by cmp x ys) = insert x (set ys)"
  by (induction ys) auto

lemma set_js_sort: "set (js_sort cmp xs) = set xs"
  unfolding js_sort_def by (induction xs) (simp_all add: set_insert_by)

lemma length_insert_by: "length (insert_by cmp x ys) = Suc (length ys)"
  by (induction ys) auto

lemma length_js_sort: "length (js_sort cmp xs) = length xs"
  unfolding js_sort_def by (induction xs) (simp_all add: length_insert_by)

lemma set_sorted_group: "set (sorted_group rws c) = {d \<in> set rws. country d = Some c}"
  by (auto simp: sorted_group_def set_js_sort grouped_get_def Let_def filter_empty_conv)

lemma set_valid_rows:
  "set (valid_rows rws c) = {d \<in> set rws. country d = Some c \<and> \<not> js_isNaN (GDP d)}"
  by (auto simp: valid_rows_def set_sorted_group)

lemma rows_GDP: "d \<in> set (rows data) \<Longrightarrow> js_isNaN (GDP d) \<or> js_isFinite (GDP d)"
proof (cases data)
  case Nil
  assume "d \<in> set (rows data)"
  with Nil show ?thesis by (simp add: rows_def)
next
  case (Cons r0 rest)
  assume "d \<in> set (rows data)"
  with Cons obtain r where "d = mk_row (countryKey r0) (yearKey r0) (gdpKey r0) r"
    unfolding rows_def by (auto simp del: list.map filter.simps)
  then show ?thesis
    by (simp add: mk_row_def parseNum_finite_or_NaN)
qed

lemma valid_rows_finite:
  "d \<in> set (valid_rows (rows data) c) \<Longrightarrow> js_isFinite (GDP d)"
  using rows_GDP [of d data] by (auto simp: set_valid_rows)

lemma clean_rows_gdp:
  "d \<in> set (clean_rows ck yk gk data) \<Longrightarrow> js_isNaN (gdp d) \<or> js_isFinite (gdp d)"
proof -
  assume "d \<in> set (clean_rows ck yk gk data)"
  then obtain r where "d = mk_cleaned ck yk gk r"
    unfolding clean_rows_def by auto
  then show ?thesis
    by (simp add: mk_cleaned_def parseNum_finite_or_NaN)
qed

lemma num_or_finite: "js_isNaN x \<or> js_isFinite x \<Longrightarrow> js_isFinite (num_or x (Fin 0))"
  by (cases x) (auto simp: num_or_def truthy_num_def)

lemma num_or_not_NaN: "\<not> js_isNaN (num_or x (Fin 0))"
  by (cases x) (auto simp: num_or_def truthy_num_def)

lemma drawForCountry_unfold:
  "drawForCountry cl c =
     (if filter (\<lambda>d. c_country d = c) cl = [] then None
      else Some (computeWaterfall (js_sort (\<lambda>a b. js_sub (c_year a) (c_year b))
                   (filter (\<lambda>d. c_country d = c) cl))))"
  by (simp add: drawForCountry_def Let_def)

lemma drawForCountry_sorted_cleaned:
  "drawForCountry cl c = Some ws \<Longrightarrow> ws = computeWaterfall (sorted_cleaned cl c)"
  by (simp add: drawForCountry_unfold sorted_cleaned_def split: if_splits)

section \<open>Rounding keeps the sign\<close>

lemma pow2_pos: "0 < pow2 k"
  by (simp add: pow2_def)

lemma pow2_powi: "pow2 k = 2 powi k"
  by (simp add: pow2_def power_int_def field_simps)

lemma pow2_add: "pow2 (a + b) = pow2 a * pow2 b"
  by (simp add: pow2_powi power_int_add)

lemma pow2_diff: "pow2 (a - b) = pow2 a / pow2 b"
  by (simp add: pow2_powi power_int_diff)

lemma pow2_mono: "a \<le> b \<Longrightarrow> pow2 a \<le> pow2 b"
  by (simp add: pow2_powi power_int_increasing)

lemma pow2_0: "pow2 0 = 1"
  by (simp add: pow2_def)

lemma on_grid_iff: "on_grid r = (\<exists>k::int. r = of_int k / pow2 1074)"
proof
  have nz: "pow2 1074 \<noteq> 0"
    using pow2_pos [of 1074] by simp
  assume "on_grid r"
  then have e: "of_int \<lfloor>r * pow2 1074\<rfloor> = r * pow2 1074"
    unfolding on_grid_def .
  have "r = of_int \<lfloor>r * pow2 1074\<rfloor> / pow2 1074"
    by (simp only: nonzero_eq_divide_eq [OF nz] e)
  then show "\<exists>k::int. r = of_int k / pow2 1074" ..
next
  have nz: "pow2 1074 \<noteq> 0"
    using pow2_pos [of 1074] by simp
  assume "\<exists>k::int. r = of_int k / pow2 1074"
  then obtain k :: int where "r = of_int k / pow2 1074" ..
  then have "r * pow2 1074 = of_int k"
    using nz by simp
  then show "on_grid r"
    unfolding on_grid_def by (simp only: floor_of_int)
qed

lemma on_grid_0: "on_grid 0"
  by (simp add: on_grid_def)

lemma on_grid_diff: "on_grid a \<Longrightarrow> on_grid b \<Longrightarrow> on_grid (a - b)"
proof -
  assume "on_grid a" and "on_grid b"
  then obtain k l :: int where "a = of_int k / pow2 1074" and "b = of_int l / pow2 1074"
    by (auto simp: on_grid_iff)
  then have "a - b = of_int (k - l) / pow2 1074"
    by (simp add: diff_divide_distrib)
  then show ?thesis
    unfolding on_grid_iff ..
qed

lemma on_grid_minus: "on_grid a \<Longrightarrow> on_grid (- a)"
  using on_grid_diff [OF on_grid_0, of a] by simp

lemma on_grid_abs_ge: "on_grid d \<Longrightarrow> d \<noteq> 0 \<Longrightarrow> pow2 (- 1074) \<le> \<bar>d\<bar>"
proof -
  assume "on_grid d" and nz: "d \<noteq> 0"
  then obtain k :: int where d: "d = of_int k / pow2 1074"
    by (auto simp: on_grid_iff)
  with nz have "k \<noteq> 0" by auto
  then have "1 \<le> \<bar>k\<bar>" by simp
  then have "(1::rat) \<le> of_int \<bar>k\<bar>" by linarith
  then have "1 / pow2 1074 \<le> of_int \<bar>k\<bar> / pow2 1074"
    using pow2_pos [of 1074] by (simp add: divide_right_mono)
  moreover have "pow2 (- 1074) = 1 / pow2 1074"
    using pow2_diff [of 0 1074] by (simp add: pow2_0)
  moreover have "\<bar>d\<bar> = of_int \<bar>k\<bar> / pow2 1074"
    using pow2_pos [of 1074] by (simp add: d abs_mult)
  ultimately show ?thesis by simp
qed

lemma bit_length_0: "bit_length 0 = 0"
  by (simp add: bit_length.simps)

lemma bit_length_step: "0 < n \<Longrightarrow> bit_length n = 1 + bit_length (n div 2)"
  by (subst bit_length.simps) simp

lemma bit_length_bounds:
  "0 < n \<Longrightarrow> 0 < bit_length n \<and> 2 ^ nat (bit_length n - 1) \<le> n \<and> n < 2 ^ nat (bit_length n)"
proof (induction n rule: bit_length.induct)
  case (1 n)
  show ?case
  proof (cases "n div 2 = 0")
    case True
    with \<open>0 < n\<close> have "n = 1" by presburger
    then show ?thesis
      by (simp add: bit_length_step bit_length_0)
  next
    case False
    with \<open>0 < n\<close> have pos: "0 < n div 2" by presburger
    from \<open>0 < n\<close> have "\<not> n \<le> 0" by simp
    from "1.IH" [OF this pos]
    have IH: "0 < bit_length (n div 2)"
        "2 ^ nat (bit_length (n div 2) - 1) \<le> n div 2"
        "n div 2 < 2 ^ nat (bit_length (n div 2))"
      by simp_all
    have bl: "bit_length n = 1 + bit_length (n div 2)"
      using \<open>0 < n\<close> by (rule bit_length_step)
    have e1: "nat (bit_length n - 1) = Suc (nat (bit_length (n div 2) - 1))"
      using IH(1) bl by simp
    have e2: "nat (bit_length n) = Suc (nat (bit_length (n div 2)))"
      using IH(1) bl by simp
    have "2 * (n div 2) \<le> n" by presburger
    with IH(2) have lo: "2 ^ nat (bit_length n - 1) \<le> n"
      unfolding e1 by simp
    have "n \<le> 2 * (n div 2) + 1" by presburger
    with IH(3) have hi: "n < 2 ^ nat (bit_length n)"
      unfolding e2 by simp
    from bl IH(1) lo hi show ?thesis by simp
  qed
qed

lemma pow2_nat: "0 \<le> k \<Longrightarrow> pow2 k = of_int (2 ^ nat k)"
  by (simp add: pow2_def)

lemma floor_log2_le: "0 < x \<Longrightarrow> pow2 (floor_log2 x) \<le> x"
proof -
  assume x: "0 < x"
  obtain p q where pq: "quotient_of x = (p, q)"
    by (cases "quotient_of x")
  then have q: "0 < q" and xq: "x = of_int p / of_int q"
    by (simp_all add: quotient_of_denom_pos quotient_of_div)
  from x xq q have p: "0 < p"
    by (simp add: zero_less_divide_iff)
  let ?e0 = "bit_length p - bit_length q"
  show ?thesis
  proof (cases "pow2 ?e0 \<le> x")
    case True
    then show ?thesis by (simp add: floor_log2_def pq)
  next
    case False
    from bit_length_bounds [OF p] have lo: "pow2 (bit_length p - 1) \<le> of_int p"
    proof -
      assume "0 < bit_length p \<and> 2 ^ nat (bit_length p - 1) \<le> p \<and> p < 2 ^ nat (bit_length p)"
      then have "0 \<le> bit_length p - 1" and "2 ^ nat (bit_length p - 1) \<le> p"
        by simp_all
      then show ?thesis
        by (simp add: pow2_nat del: of_int_power)
    qed
    from bit_length_bounds [OF q] have hi: "of_int q \<le> pow2 (bit_length q)"
    proof -
      assume "0 < bit_length q \<and> 2 ^ nat (bit_length q - 1) \<le> q \<and> q < 2 ^ nat (bit_length q)"
      then have "0 \<le> bit_length q" and "q \<le> 2 ^ nat (bit_length q)"
        by simp_all
      then show ?thesis
        by (simp add: pow2_nat del: of_int_power)
    qed
    have "pow2 (?e0 - 1) = pow2 (bit_length p - 1) / pow2 (bit_length q)"
      using pow2_diff [of "bit_length p - 1" "bit_length q"] by (simp add: algebra_simps)
    also have "\<dots> \<le> of_int p / pow2 (bit_length q)"
      using lo pow2_pos [of "bit_length q"] by (simp add: divide_right_mono)
    also have "\<dots> \<le> of_int p / of_int q"
      using hi p q by (simp add: divide_left_mono)
    finally have "pow2 (?e0 - 1) \<le> x"
      by (simp add: xq)
    with False show ?thesis by (simp add: floor_log2_def pq)
  qed
qed

lemma round_half_even_ge_1: "1 \<le> r \<Longrightarrow> 1 \<le> round_half_even r"
proof -
  assume "1 \<le> r"
  then have "1 \<le> \<lfloor>r\<rfloor>" by simp
  then show ?thesis
    by (auto simp: round_half_even_def Let_def)
qed

lemma round_half_even_nonneg: "0 \<le> r \<Longrightarrow> 0 \<le> round_half_even r"
proof -
  assume "0 \<le> r"
  then have "0 \<le> \<lfloor>r\<rfloor>" by simp
  then show ?thesis
    by (auto simp: round_half_even_def Let_def)
qed

lemma round_magnitude_nonneg: "0 \<le> a \<Longrightarrow> 0 \<le> round_magnitude a"
proof -
  assume a: "0 \<le> a"
  let ?u = "max (floor_log2 a) (- 1022) - 52"
  have "0 \<le> a / pow2 ?u"
    using a pow2_pos [of ?u] by simp
  then have "0 \<le> round_half_even (a / pow2 ?u)"
    by (rule round_half_even_nonneg)
  then show ?thesis
    using pow2_pos [of ?u] by (simp add: round_magnitude_def Let_def)
qed

lemma round_magnitude_pos: "pow2 (- 1074) \<le> a \<Longrightarrow> 0 < round_magnitude a"
proof -
  assume a: "pow2 (- 1074) \<le> a"
  with pow2_pos [of "- 1074"] have pos: "0 < a" by simp
  let ?u = "max (floor_log2 a) (- 1022) - 52"
  have "pow2 ?u \<le> a"
  proof (cases "- 1022 \<le> floor_log2 a")
    case True
    then have "?u \<le> floor_log2 a" by simp
    then have "pow2 ?u \<le> pow2 (floor_log2 a)" by (rule pow2_mono)
    also have "\<dots> \<le> a" using pos by (rule floor_log2_le)
    finally show ?thesis .
  next
    case False
    then have "?u = - 1074" by simp
    with a show ?thesis by simp
  qed
  then have "1 \<le> a / pow2 ?u"
    using pow2_pos [of ?u] by (simp add: le_divide_eq)
  then have "1 \<le> round_half_even (a / pow2 ?u)"
    by (rule round_half_even_ge_1)
  then have "0 < (of_int (round_half_even (a / pow2 ?u)) :: rat)"
    by simp
  then show ?thesis
    using pow2_pos [of ?u] by (simp add: round_magnitude_def Let_def)
qed

lemma round_double_sign:
  assumes "on_grid d" and "d \<noteq> 0"
  shows "js_lt (Fin 0) (round_double d) = (0 < d)"
proof (cases "0 < d")
  case True
  from on_grid_abs_ge [OF assms] have "pow2 (- 1074) \<le> \<bar>d\<bar>" .
  then have "0 < round_magnitude \<bar>d\<bar>"
    by (rule round_magnitude_pos)
  with True show ?thesis
    by (simp add: round_double_def Let_def)
next
  case False
  with assms(2) have neg: "d < 0" by simp
  have "0 \<le> round_magnitude \<bar>d\<bar>"
    by (rule round_magnitude_nonneg) simp
  with neg show ?thesis
    by (simp add: round_double_def Let_def)
qed

lemma grid_val: "grid_number x \<Longrightarrow> on_grid (val x)"
  by (cases x) (simp_all add: on_grid_0)

lemma val_neg: "val (js_neg y) = - val y"
  by (cases y) simp_all

lemma finite_facts:
  "js_isFinite y \<Longrightarrow> y \<noteq> PosInf \<and> y \<noteq> NegInf \<and> \<not> js_isNaN y"
  by (cases y) simp_all

lemma js_sub_finite:
  assumes "js_isFinite a" and "js_isFinite b"
  shows "js_sub a b =
     (if val a - val b = 0 then (if a = NegZero \<and> js_neg b = NegZero then NegZero else Fin 0)
      else round_double (val a - val b))"
  using finite_facts [OF assms(1)] finite_facts [of "js_neg b"] assms(2)
  by (simp add: js_sub_def js_add_def js_isFinite_neg val_neg)

text \<open>The comparator \<open>a - b\<close> of the sorts is positive exactly when \<open>b < a\<close>.\<close>

lemma compare_by_difference:
  assumes "\<not> js_isNaN a" and "\<not> js_isNaN b" and "grid_number a" and "grid_number b"
  shows "js_lt (Fin 0) (js_sub a b) = js_lt b a"
proof (cases "js_isFinite a \<and> js_isFinite b")
  case False
  with assms(1,2) show ?thesis
    by (cases a; cases b) (simp_all add: js_sub_def js_add_def)
next
  case True
  then have fa: "a = NegZero \<or> (\<exists>r. a = Fin r)" and fb: "b = NegZero \<or> (\<exists>r. b = Fin r)"
    by (cases a; cases b; simp)+
  have lt: "js_lt b a = (val b < val a)"
    using fa fb by auto
  have grid: "on_grid (val a - val b)"
    using assms(3,4) by (simp add: on_grid_diff grid_val)
  show ?thesis
  proof (cases "val a - val b = 0")
    case True
    with js_sub_finite [of a b] \<open>js_isFinite a \<and> js_isFinite b\<close> lt show ?thesis
      by auto
  next
    case False
    with js_sub_finite [of a b] \<open>js_isFinite a \<and> js_isFinite b\<close>
    have "js_sub a b = round_double (val a - val b)"
      by simp
    with round_double_sign [OF grid False] lt show ?thesis
      by simp
  qed
qed

section \<open>The sort by year\<close>

lemma js_le_trans:
  "\<not> js_isNaN a \<Longrightarrow> \<not> js_isNaN b \<Longrightarrow> \<not> js_isNaN c \<Longrightarrow>
     \<not> js_lt b a \<Longrightarrow> \<not> js_lt c b \<Longrightarrow> \<not> js_lt c a"
  by (cases a; cases b; cases c) simp_all

lemma js_lt_asym: "js_lt a b \<Longrightarrow> \<not> js_lt b a"
  by (cases a; cases b) simp_all

lemma sorted_insert_by:
  assumes "\<forall>z \<in> insert x (set ys). \<not> js_isNaN (key z) \<and> grid_number (key z)"
    and "sorted_wrt (\<lambda>a b. \<not> js_lt (key b) (key a)) ys"
  shows "sorted_wrt (\<lambda>a b. \<not> js_lt (key b) (key a)) (insert_by (\<lambda>a b. js_sub (key a) (key b)) x ys)"
  using assms
proof (induction ys)
  case Nil
  show ?case by simp
next
  case (Cons y ys)
  have cmp: "js_lt (Fin 0) (js_sub (key x) (key y)) = js_lt (key y) (key x)"
    using Cons.prems(1) by (intro compare_by_difference) simp_all
  show ?case
  proof (cases "js_lt (key y) (key x)")
    case True
    have "sorted_wrt (\<lambda>a b. \<not> js_lt (key b) (key a)) (insert_by (\<lambda>a b. js_sub (key a) (key b)) x ys)"
      using Cons.prems by (intro Cons.IH) simp_all
    moreover have "\<forall>z \<in> set (insert_by (\<lambda>a b. js_sub (key a) (key b)) x ys). \<not> js_lt (key z) (key y)"
      using Cons.prems(2) True by (auto simp: set_insert_by dest: js_lt_asym)
    ultimately show ?thesis
      using True by (simp add: cmp)
  next
    case False
    have "\<not> js_lt (key z) (key x)" if "z \<in> set ys" for z
    proof -
      from that Cons.prems(2) have "\<not> js_lt (key z) (key y)" by simp
      with False show ?thesis
        using Cons.prems(1) that by (intro js_le_trans [of "key x" "key y" "key z"]) simp_all
    qed
    with False Cons.prems(2) show ?thesis
      by (simp add: cmp)
  qed
qed

lemma sorted_js_sort:
  assumes "\<forall>z \<in> set xs. \<not> js_isNaN (key z) \<and> grid_number (key z)"
  shows "sorted_wrt (\<lambda>a b. \<not> js_lt (key b) (key a)) (js_sort (\<lambda>a b. js_sub (key a) (key b)) xs)"
  using assms
proof (induction xs)
  case Nil
  show ?case by (simp add: js_sort_def)
next
  case (Cons x xs)
  let ?s = "js_sort (\<lambda>a b. js_sub (key a) (key b)) xs"
  have "sorted_wrt (\<lambda>a b. \<not> js_lt (key b) (key a)) ?s"
    using Cons by simp
  moreover have "\<forall>z \<in> insert x (set ?s). \<not> js_isNaN (key z) \<and> grid_number (key z)"
    using Cons.prems by (simp add: set_js_sort)
  ultimately have "sorted_wrt (\<lambda>a b. \<not> js_lt (key b) (key a))
      (insert_by (\<lambda>a b. js_sub (key a) (key b)) x ?s)"
    by (intro sorted_insert_by)
  then show ?case by (simp add: js_sort_def)
qed

lemma sorted_group_sorted:
  assumes "\<forall>d \<in> set rws. \<not> js_isNaN (year d) \<and> grid_number (year d)"
  shows "sorted_wrt (\<lambda>a b. \<not> js_lt (year b) (year a)) (sorted_group rws c)"
proof -
  have "\<forall>d \<in> set (case grouped_get rws c of None \<Rightarrow> [] | Some g \<Rightarrow> g).
          \<not> js_isNaN (year d) \<and> grid_number (year d)"
    using assms by (auto simp: grouped_get_def Let_def split: if_splits)
  then show ?thesis
    unfolding sorted_group_def by (rule sorted_js_sort)
qed

section \<open>Parsed numbers lie on the grid\<close>

lemma on_grid_scaled: "- 1074 \<le> u \<Longrightarrow> on_grid (of_int m * pow2 u)"
proof -
  assume u: "- 1074 \<le> u"
  have "of_int m * pow2 u * pow2 1074 = of_int m * pow2 (u + 1074)"
    by (simp add: pow2_add)
  also have "\<dots> = of_int (m * 2 ^ nat (u + 1074))"
    using u by (simp add: pow2_nat)
  finally have "of_int m * pow2 u * pow2 1074 = of_int (m * 2 ^ nat (u + 1074))" .
  then show ?thesis
    unfolding on_grid_def by (simp only: floor_of_int)
qed

lemma round_magnitude_grid: "on_grid (round_magnitude a)"
  unfolding round_magnitude_def Let_def by (rule on_grid_scaled) simp

lemma round_double_grid: "grid_number (round_double x)"
  by (simp add: round_double_def Let_def round_magnitude_grid on_grid_minus)

lemma mk_decimal_grid: "grid_number (mk_decimal neg n k)"
  by (simp add: mk_decimal_def round_double_grid on_grid_0)

lemma str_decimal_literal_grid: "str_decimal_literal t = Some (n, r) \<Longrightarrow> grid_number n"
  by (auto simp: str_decimal_literal_def Let_def mk_decimal_grid
      split: prod.splits list.splits if_splits)

lemma non_decimal_literal_grid: "non_decimal_literal t = Some n \<Longrightarrow> grid_number n"
  by (auto simp: non_decimal_literal_def Let_def mk_decimal_grid split: list.splits if_splits)

lemma string_to_number_grid: "grid_number (string_to_number s)"
  by (auto simp: string_to_number_def Let_def on_grid_0
      dest: non_decimal_literal_grid str_decimal_literal_grid
      split: option.splits list.splits prod.splits)

lemma unary_plus_grid: "grid_number (unary_plus v)"
  by (simp add: unary_plus_def string_to_number_grid split: option.split)

lemma rows_year:
  "d \<in> set (rows data) \<Longrightarrow> \<not> js_isNaN (year d) \<and> grid_number (year d)"
proof (cases data)
  case Nil
  assume "d \<in> set (rows data)"
  with Nil show ?thesis by (simp add: rows_def)
next
  case (Cons r0 rest)
  assume "d \<in> set (rows data)"
  with Cons obtain r where "d = mk_row (countryKey r0) (yearKey r0) (gdpKey r0) r" and "keep_row d"
    unfolding rows_def by (auto simp del: list.map filter.simps)
  then show ?thesis
    by (simp add: mk_row_def keep_row_def unary_plus_grid)
qed

lemma sorted_group_rows_sorted:
  "sorted_wrt (\<lambda>a b. \<not> js_lt (year b) (year a)) (sorted_group (rows data) c)"
  by (rule sorted_group_sorted) (simp add: rows_year)

section \<open>Rounding leaves a binary64 value as it is\<close>

lemma pow2_less_cancel: "pow2 a < pow2 b \<Longrightarrow> a < b"
  using pow2_mono [of b a] by (cases "a < b") simp_all

lemma floor_log2_gt: "0 < x \<Longrightarrow> x < pow2 (floor_log2 x + 1)"
proof -
  assume x: "0 < x"
  obtain p q where pq: "quotient_of x = (p, q)"
    by (cases "quotient_of x")
  then have q: "0 < q" and xq: "x = of_int p / of_int q"
    by (simp_all add: quotient_of_denom_pos quotient_of_div)
  from x xq q have p: "0 < p"
    by (simp add: zero_less_divide_iff)
  let ?e0 = "bit_length p - bit_length q"
  show ?thesis
  proof (cases "pow2 ?e0 \<le> x")
    case False
    then show ?thesis by (simp add: floor_log2_def pq)
  next
    case True
    from bit_length_bounds [OF p] have hi: "of_int p < pow2 (bit_length p)"
    proof -
      assume "0 < bit_length p \<and> 2 ^ nat (bit_length p - 1) \<le> p \<and> p < 2 ^ nat (bit_length p)"
      then have "0 \<le> bit_length p" and "p < 2 ^ nat (bit_length p)"
        by simp_all
      then show ?thesis
        by (simp add: pow2_nat del: of_int_power)
    qed
    from bit_length_bounds [OF q] have lo: "pow2 (bit_length q - 1) \<le> of_int q"
    proof -
      assume "0 < bit_length q \<and> 2 ^ nat (bit_length q - 1) \<le> q \<and> q < 2 ^ nat (bit_length q)"
      then have "0 \<le> bit_length q - 1" and "2 ^ nat (bit_length q - 1) \<le> q"
        by simp_all
      then show ?thesis
        by (simp add: pow2_nat del: of_int_power)
    qed
    have "x = of_int p / of_int q"
      by (rule xq)
    also have "\<dots> < pow2 (bit_length p) / of_int q"
      using hi q by (simp add: divide_strict_right_mono)
    also have "\<dots> \<le> pow2 (bit_length p) / pow2 (bit_length q - 1)"
      using lo pow2_pos [of "bit_length p"] pow2_pos [of "bit_length q - 1"]
      by (simp add: divide_left_mono)
    also have "\<dots> = pow2 (?e0 + 1)"
      using pow2_diff [of "bit_length p" "bit_length q - 1"] by (simp add: algebra_simps)
    finally have "x < pow2 (?e0 + 1)" .
    with True show ?thesis by (simp add: floor_log2_def pq)
  qed
qed

lemma floor_log2_unique:
  assumes "pow2 e \<le> x" and "x < pow2 (e + 1)"
  shows "floor_log2 x = e"
proof -
  from assms(1) pow2_pos [of e] have x: "0 < x" by simp
  from floor_log2_le [OF x] assms(2) have "pow2 (floor_log2 x) < pow2 (e + 1)" by simp
  then have "floor_log2 x < e + 1" by (rule pow2_less_cancel)
  moreover from floor_log2_gt [OF x] assms(1) have "pow2 e < pow2 (floor_log2 x + 1)" by simp
  then have "e < floor_log2 x + 1" by (rule pow2_less_cancel)
  ultimately show ?thesis by simp
qed

lemma round_half_even_of_int: "round_half_even (of_int k) = k"
  by (simp add: round_half_even_def Let_def)

lemma round_half_even_le: "r \<le> of_int N \<Longrightarrow> round_half_even r \<le> N"
proof -
  assume r: "r \<le> of_int N"
  then have fl: "\<lfloor>r\<rfloor> \<le> N" by (simp add: floor_le_iff) 
  show ?thesis
  proof (cases "\<lfloor>r\<rfloor> = N")
    case True
    with r have "r = of_int \<lfloor>r\<rfloor>"
      using of_int_floor_le [of r] by simp
    then have "round_half_even r = \<lfloor>r\<rfloor>"
      using round_half_even_of_int [of "\<lfloor>r\<rfloor>"] by simp
    with True show ?thesis by simp
  next
    case False
    with fl have "\<lfloor>r\<rfloor> + 1 \<le> N" by simp
    moreover have "round_half_even r \<le> \<lfloor>r\<rfloor> + 1"
      by (simp add: round_half_even_def Let_def)
    ultimately show ?thesis by simp
  qed
qed


lemma pow2_int: "0 \<le> k \<Longrightarrow> \<exists>n::int. pow2 k = of_int n"
proof -
  assume "0 \<le> k"
  then have "pow2 k = of_int (2 ^ nat k)" by (rule pow2_nat)
  then show ?thesis ..
qed

lemma round_magnitude_0: "round_magnitude 0 = 0"
  by (simp add: round_magnitude_def Let_def round_half_even_def)

lemma round_magnitude_of_int:
  assumes "y = of_int k * pow2 v" and "max (floor_log2 y) (- 1022) - 52 \<le> v"
  shows "round_magnitude y = y"
proof -
  define u where "u = max (floor_log2 y) (- 1022) - 52"
  from assms(2) have "0 \<le> v - u"
    by (simp add: u_def)
  then obtain n :: int where n: "pow2 (v - u) = of_int n"
    by (blast dest: pow2_int)
  have nz: "pow2 u \<noteq> 0"
    using pow2_pos [of u] by simp
  have "pow2 v = pow2 (v - u) * pow2 u"
    using pow2_add [of "v - u" u] by simp
  then have "pow2 v = of_int n * pow2 u"
    by (simp only: n)
  then have "of_int k * pow2 v = of_int (k * n) * pow2 u"
    by (simp add: mult.assoc)
  with assms(1) have y: "y = of_int (k * n) * pow2 u"
    by (simp only:)
  then have "y / pow2 u = of_int (k * n)"
    using nz by simp
  then have "round_half_even (y / pow2 u) = k * n"
    by (simp only: round_half_even_of_int)
  then have "round_magnitude y = of_int (k * n) * pow2 u"
    by (simp add: round_magnitude_def Let_def u_def)
  with y show ?thesis
    by (simp only:)
qed

lemma round_magnitude_idem:
  assumes "0 \<le> a"
  shows "round_magnitude (round_magnitude a) = round_magnitude a"
proof (cases "a = 0")
  case True
  then show ?thesis by (simp add: round_magnitude_0)
next
  case False
  with assms have pos: "0 < a" by simp
  define e where "e = max (floor_log2 a) (- 1022)"
  define u where "u = e - 52"
  define m where "m = round_half_even (a / pow2 u)"
  define y where "y = round_magnitude a"
  have e: "floor_log2 a \<le> e" "- 1022 \<le> e"
    by (simp_all add: e_def)
  have y: "y = of_int m * pow2 u"
    by (simp add: y_def m_def u_def e_def round_magnitude_def Let_def)
  have "a < pow2 (floor_log2 a + 1)"
    using pos by (rule floor_log2_gt)
  also have "\<dots> \<le> pow2 (e + 1)"
    using e(1) by (intro pow2_mono) simp
  finally have "a < pow2 (e + 1)" .
  moreover have "pow2 (e + 1) = pow2 53 * pow2 u"
    using pow2_add [of 53 u] by (simp add: u_def algebra_simps)
  ultimately have "a / pow2 u < pow2 53"
    using pow2_pos [of u] by (simp add: divide_less_eq)
  moreover have p53: "pow2 53 = of_int (2 ^ 53)"
    by (simp add: pow2_def)
  ultimately have "a / pow2 u \<le> of_int (2 ^ 53)"
    by simp
  then have m_le: "m \<le> 2 ^ 53"
    unfolding m_def by (rule round_half_even_le)
  have "0 \<le> a / pow2 u"
    using pos pow2_pos [of u] by simp
  then have m_ge: "0 \<le> m"
    unfolding m_def by (rule round_half_even_nonneg)
  have "round_magnitude y = y"
  proof (cases "m = 0")
    case True
    with y show ?thesis by (simp add: round_magnitude_0)
  next
    case False
    with m_ge have m_pos: "0 < m" by simp
    then have y_pos: "0 < y"
      using pow2_pos [of u] by (simp add: y)
    show ?thesis
    proof (cases "m = 2 ^ 53")
      case True
      then have "y = pow2 53 * pow2 u"
        by (simp add: y p53)
      then have y53: "y = pow2 (u + 53)"
        using pow2_add [of 53 u] by (simp add: add.commute)
      have "pow2 (u + 53 + 1) = pow2 (u + 53) * 2"
        using pow2_add [of "u + 53" 1] by (simp add: pow2_def)
      then have "pow2 (u + 53) < pow2 (u + 53 + 1)"
        using pow2_pos [of "u + 53"] by simp
      with y53 have "floor_log2 y = u + 53"
        by (intro floor_log2_unique) simp_all
      then have u': "max (floor_log2 y) (- 1022) - 52 = u + 1"
        using e(2) by (simp add: u_def)
      have "pow2 (u + 53) = pow2 52 * pow2 (u + 1)"
        using pow2_add [of 52 "u + 1"] by (simp add: algebra_simps)
      moreover have "pow2 52 = of_int (2 ^ 52)"
        by (simp add: pow2_def)
      ultimately have "y = of_int (2 ^ 52) * pow2 (u + 1)"
        by (simp only: y53)
      then show ?thesis
        using u' by (intro round_magnitude_of_int [where k = "2 ^ 52" and v = "u + 1"]) simp_all
    next
      case False
      with m_le have "m < 2 ^ 53" by simp
      then have "(of_int m :: rat) < of_int (2 ^ 53)"
        by (simp only: of_int_less_iff)
      then have "y < pow2 53 * pow2 u"
        using pow2_pos [of u] by (simp add: y p53)
      then have "y < pow2 (u + 53)"
        using pow2_add [of 53 u] by (simp add: add.commute)
      with floor_log2_le [OF y_pos] have "pow2 (floor_log2 y) < pow2 (u + 53)"
        by simp
      then have "floor_log2 y < u + 53"
        by (rule pow2_less_cancel)
      then have "max (floor_log2 y) (- 1022) - 52 \<le> u"
        using e(2) by (simp add: u_def)
      with y show ?thesis
        by (intro round_magnitude_of_int [where k = m and v = u])
    qed
  qed
  then show ?thesis
    by (simp only: y_def)
qed

lemma round_double_is_double: "is_double (round_double x)"
proof -
  let ?y = "round_magnitude \<bar>x\<bar>"
  have idem: "round_magnitude ?y = ?y"
    by (rule round_magnitude_idem) simp
  have nonneg: "0 \<le> ?y"
    by (rule round_magnitude_nonneg) simp
  show ?thesis
  proof (cases "x < 0")
    case True
    show ?thesis
    proof (cases "2 ^ 1024 \<le> ?y \<or> ?y = 0")
      case True
      with \<open>x < 0\<close> show ?thesis
        by (auto simp: round_double_def Let_def)
    next
      case False
      with nonneg have "0 < ?y" by simp
      with False \<open>x < 0\<close> idem show ?thesis
        by (simp add: round_double_def Let_def)
    qed
  next
    case False
    show ?thesis
    proof (cases "2 ^ 1024 \<le> ?y")
      case True
      with \<open>\<not> x < 0\<close> show ?thesis
        by (simp add: round_double_def Let_def)
    next
      case False
      with \<open>\<not> x < 0\<close> nonneg idem show ?thesis
        by (simp add: round_double_def Let_def)
    qed
  qed
qed


lemma round_double_0: "round_double 0 = Fin 0"
  by (simp add: round_double_def Let_def round_magnitude_0)

lemma mk_decimal_is_double: "is_double (mk_decimal neg n k)"
  by (simp add: mk_decimal_def round_double_is_double round_double_0)

lemma str_decimal_literal_is_double: "str_decimal_literal t = Some (n, r) \<Longrightarrow> is_double n"
  by (auto simp: str_decimal_literal_def Let_def mk_decimal_is_double
      split: prod.splits list.splits if_splits)

lemma parseFloat_is_double: "is_double (parseFloat s)"
  by (auto simp: parseFloat_def dest: str_decimal_literal_is_double split: option.splits)

lemma parseNum_is_double: "is_double (parseNum s)"
  by (simp add: parseNum_def Let_def parseFloat_is_double split: option.split)

lemma rows_GDP_is_double: "d \<in> set (rows data) \<Longrightarrow> is_double (GDP d)"
proof (cases data)
  case Nil
  assume "d \<in> set (rows data)"
  with Nil show ?thesis by (simp add: rows_def)
next
  case (Cons r0 rest)
  assume "d \<in> set (rows data)"
  with Cons obtain r where "d = mk_row (countryKey r0) (yearKey r0) (gdpKey r0) r"
    unfolding rows_def by (auto simp del: list.map filter.simps)
  then show ?thesis
    by (simp add: mk_row_def parseNum_is_double)
qed

lemma clean_rows_gdp_is_double: "d \<in> set (clean_rows ck yk gk data) \<Longrightarrow> is_double (gdp d)"
proof -
  assume "d \<in> set (clean_rows ck yk gk data)"
  then obtain r where "d = mk_cleaned ck yk gk r"
    unfolding clean_rows_def by auto
  then show ?thesis
    by (simp add: mk_cleaned_def parseNum_is_double)
qed

text \<open>Subtracting \<open>+0\<close> from a binary64 value gives the value back.\<close>

lemma js_sub_zero: "js_isFinite x \<Longrightarrow> is_double x \<Longrightarrow> js_eq (js_sub x (Fin 0)) x"
  by (cases x) (auto simp: js_sub_def js_add_def js_eq_def)

lemma js_sub_num_or_zero:
  assumes "js_isFinite x" and "is_double x"
  shows "js_eq (js_sub (num_or x (Fin 0)) (Fin 0)) x"
proof (cases "truthy_num x")
  case True
  with js_sub_zero [OF assms] show ?thesis
    by (simp add: num_or_def)
next
  case False
  with assms(1) have "x = Fin 0 \<or> x = NegZero"
    by (cases x) (auto simp: truthy_num_def)
  then show ?thesis
    by (auto simp: num_or_def truthy_num_def js_sub_def js_add_def js_eq_def)
qed

lemma js_add_is_double: "is_double (js_add x y)"
  by (simp add: js_add_def round_double_is_double round_double_0)

lemma js_sub_is_double: "is_double (js_sub x y)"
  unfolding js_sub_def by (rule js_add_is_double)

text \<open>When the sum \<open>s + d\<close> was exact, the difference of the sum and \<open>s\<close> is \<open>d\<close>.\<close>

lemma js_sub_exact:
  assumes "js_isFinite e" and "js_isFinite s" and "js_isFinite d" and "is_double d"
    and "val e = val s + val d"
  shows "js_eq (js_sub e s) d"
proof (cases "val d = 0")
  case True
  with assms(3) have "d = Fin 0 \<or> d = NegZero"
    by (cases d) simp_all
  moreover from True assms(5) have "val e - val s = 0"
    by simp
  ultimately show ?thesis
    using js_sub_finite [OF assms(1,2)] by (auto simp: js_eq_def)
next
  case False
  with assms(3) obtain r where d: "d = Fin r" "r \<noteq> 0"
    by (cases d) simp_all
  from assms(5) d have "val e - val s = r"
    by simp
  with d(2) js_sub_finite [OF assms(1,2)] have "js_sub e s = round_double r"
    by simp
  with assms(4) d(1) show ?thesis
    by (simp add: js_eq_def)
qed

section \<open>The row objects\<close>

lemma map_fst_define_property:
  "map fst (define_property k v r) = (if k \<in> set (map fst r) then map fst r else map fst r @ [k])"
  by (induction r) force+

lemma distinct_define_property:
  "distinct (map fst r) \<Longrightarrow> distinct (map fst (define_property k v r))"
  by (simp add: map_fst_define_property)

lemma distinct_object_literal:
  "distinct (map fst r) \<Longrightarrow>
   distinct (map fst (foldl (\<lambda>r (k, v). if k = ''__proto__'' then r else define_property k v r) r ps))"
proof (induction ps arbitrary: r)
  case Nil
  then show ?case by simp
next
  case (Cons p ps)
  obtain k v where p: "p = (k, v)"
    by (cases p)
  from Cons.prems have "distinct (map fst (if k = ''__proto__'' then r else define_property k v r))"
    by (simp add: distinct_define_property)
  then show ?case
    unfolding p by (simp add: Cons.IH)
qed

text \<open>A parsed row has every name once.\<close>

lemma distinct_dsv_row: "distinct (map fst (dsv_row header d))"
  unfolding dsv_row_def by (rule distinct_object_literal) simp

lemma dsv_parse_gdp_header: "dsv_parse gdp_header lines = Some (table gdp_header lines)"
  by (simp add: dsv_parse_def table_def gdp_header_def)

section \<open>Evaluation on the example tables\<close>

lemma object_keys_plain:
  assumes "list_all (\<lambda>k. \<not> is_array_index k) (map fst r)"
  shows "object_keys r = map fst r"
proof -
  from assms have "filter is_array_index (map fst r) = []"
    by (simp add: filter_empty_conv list_all_iff)
  moreover from assms have "filter (\<lambda>k. \<not> is_array_index k) (map fst r) = map fst r"
    by (simp add: filter_id_conv list_all_iff)
  ultimately show ?thesis
    by (simp add: object_keys_def)
qed

lemma gdp_header_plain: "list_all (\<lambda>k. \<not> is_array_index k) gdp_header"
  by code_simp

lemma gdp_header_keys:
  "object_keys [(''Country Name'', a), (''Year'', b), (''GDP'', g)] = gdp_header"
proof -
  have "list_all (\<lambda>k. \<not> is_array_index k)
          (map fst [(''Country Name'', a), (''Year'', b), (''GDP'', g)])"
    using gdp_header_plain by (simp add: gdp_header_def)
  then have "object_keys [(''Country Name'', a), (''Year'', b), (''GDP'', g)] =
      map fst [(''Country Name'', a), (''Year'', b), (''GDP'', g)]"
    by (rule object_keys_plain)
  then show ?thesis
    by (simp add: gdp_header_def)
qed

lemma dsv_row_gdp_header:
  "dsv_row [''Country Name'', ''Year'', ''GDP''] [a, b, g] =
     [(''Country Name'', a), (''Year'', b), (''GDP'', g)]"
  by (simp add: dsv_row_def field_or_empty_def upt_rec)

lemma find_country_gdp_header:
  "find (regex_test_ci ''country'') gdp_header = Some ''Country Name''"
  by code_simp

lemma find_year_gdp_header: "find (regex_test_ci ''year'') gdp_header = Some ''Year''"
  by code_simp

lemma find_gdp_gdp_header: "find (\<lambda>k. map ascii_lower k = ''gdp'') gdp_header = Some ''GDP''"
  by code_simp

lemma gdp_header_countryKey:
  "object_keys r0 = gdp_header \<Longrightarrow> countryKey r0 = Some ''Country Name''"
  by (simp add: countryKey_def find_country_gdp_header str_or_def truthy_str_def)

lemma gdp_header_yearKey: "object_keys r0 = gdp_header \<Longrightarrow> yearKey r0 = Some ''Year''"
  by (simp add: yearKey_def find_year_gdp_header str_or_def truthy_str_def)

lemma gdp_header_gdpKey: "object_keys r0 = gdp_header \<Longrightarrow> gdpKey r0 = Some ''GDP''"
  by (simp add: gdpKey_def find_gdp_gdp_header str_or_def truthy_str_def)

lemma mk_row_gdp_header:
  "mk_row (Some ''Country Name'') (Some ''Year'') (Some ''GDP'')
          [(''Country Name'', a), (''Year'', b), (''GDP'', g)] =
     \<lparr>country = Some a, year = unary_plus (Some b), GDP = parseNum (Some g),
      raw = [(''Country Name'', a), (''Year'', b), (''GDP'', g)]\<rparr>"
  by (simp add: mk_row_def js_get_def)

lemma mk_cleaned_gdp_header:
  "mk_cleaned ''Country Name'' ''Year'' ''GDP''
          [(''Country Name'', a), (''Year'', b), (''GDP'', g)] =
     \<lparr>c_country = (if a \<noteq> [] then js_trim a else []),
      c_year = num_or (parseInt (js_trim b)) NaN, gdp = parseNum (Some g)\<rparr>"
  by (simp add: mk_cleaned_def js_get_def str_or_default_def js_trim_def)

lemmas table_simps = table_def dsv_row_gdp_header gdp_header_def

lemmas rows_gdp_header_simps = rows_def gdp_header_countryKey gdp_header_yearKey
  gdp_header_gdpKey gdp_header_keys mk_row_gdp_header keep_row_def truthy_str_def

lemma unary_plus_2000: "unary_plus (Some ''2000'') = Fin 2000" by code_simp
lemma unary_plus_2001: "unary_plus (Some ''2001'') = Fin 2001" by code_simp
lemma unary_plus_2002: "unary_plus (Some ''2002'') = Fin 2002" by code_simp
lemma parseInt_2000: "parseInt (js_trim ''2000'') = Fin 2000" by code_simp
lemma parseInt_2001: "parseInt (js_trim ''2001'') = Fin 2001" by code_simp
lemma parseInt_2002: "parseInt (js_trim ''2002'') = Fin 2002" by code_simp
lemma js_trim_X: "js_trim ''X'' = ''X''" by code_simp
lemma parseNum_1_000_5: "parseNum (Some ''1.000,5'') = Fin 1" by code_simp
lemma parseNum_1100: "parseNum (Some ''1100'') = Fin 1100" by code_simp
lemma parseNum_1: "parseNum (Some ''1'') = Fin 1" by code_simp
lemma parseNum_big: "parseNum (Some ''9007199254740994'') = Fin 9007199254740994" by code_simp
lemma parseNum_10: "parseNum (Some ''10'') = Fin 10" by code_simp
lemma parseNum_30: "parseNum (Some ''30'') = Fin 30" by code_simp
lemma parseNum_nan: "parseNum (Some ''nan'') = NaN" by code_simp

lemma cmp_2000_2001: "js_lt (Fin 0) (js_sub (Fin 2000) (Fin 2001)) = False" by code_simp
lemma cmp_2001_2002: "js_lt (Fin 0) (js_sub (Fin 2001) (Fin 2002)) = False" by code_simp

lemmas year_simps = unary_plus_2000 unary_plus_2001 unary_plus_2002 parseInt_2000 parseInt_2001
  parseInt_2002 cmp_2000_2001 cmp_2001_2002 js_trim_X
lemmas parseNum_simps = parseNum_1_000_5 parseNum_1100 parseNum_1 parseNum_big parseNum_10
  parseNum_30 parseNum_nan

lemma rows_germany:
  "rows germany_data =
     [\<lparr>country = Some ''Germany'', year = Fin 2000, GDP = Fin 1,
       raw = [(''Country Name'', ''Germany''), (''Year'', ''2000''), (''GDP'', ''1.000,5'')]\<rparr>,
      \<lparr>country = Some ''Germany'', year = Fin 2001, GDP = Fin 1100,
       raw = [(''Country Name'', ''Germany''), (''Year'', ''2001''), (''GDP'', ''1100'')]\<rparr>]"
  by (simp add: germany_data_def table_simps rows_gdp_header_simps year_simps parseNum_simps)

lemma valid_rows_germany: "valid_rows (rows germany_data) ''Germany'' = rows germany_data"
  by (simp add: rows_germany valid_rows_def sorted_group_def grouped_get_def js_sort_def year_simps)

lemma sub_1100_1: "js_sub (Fin 1100) (Fin 1) = Fin 1099" by code_simp
lemma add_1_1099: "js_add (Fin 1) (Fin 1099) = Fin 1100" by code_simp
lemma ge_pos: "0 \<le> r \<Longrightarrow> js_ge (Fin r) (Fin 0)" by (simp add: js_ge_def)
lemma ge_neg: "r < 0 \<Longrightarrow> \<not> js_ge (Fin r) (Fin 0)" by (simp add: js_ge_def)

lemma buildWaterfall_germany:
  "buildWaterfall (rows germany_data) ''Germany'' =
     [\<lparr>item_year = Fin 2000, item_value = Fin 1, item_type = Base\<rparr>,
      \<lparr>item_year = Fin 2001, item_value = Fin 1099, item_type = Increase\<rparr>]"
  by (simp add: buildWaterfall_unfold valid_rows_germany)
     (simp add: rows_germany base_item_def delta_item_def sub_1100_1 ge_pos)

lemma draw_germany:
  "draw (rows germany_data) ''Germany'' =
     Some [\<lparr>item_year = Fin 2000, item_value = Fin 1, item_type = Base,
            bar_start = Fin 0, bar_end = Fin 1, cumulative = Fin 1\<rparr>,
           \<lparr>item_year = Fin 2001, item_value = Fin 1099, item_type = Increase,
            bar_start = Fin 1, bar_end = Fin 1100, cumulative = Fin 1100\<rparr>]"
  by (simp add: draw_def buildWaterfall_germany compute_pass_first compute_pass_next
      fin_or_zero_def add_1_1099)

lemma sub_30_10: "js_sub (Fin 30) (Fin 10) = Fin 20" by code_simp
lemma sub_big_1: "js_sub (Fin 9007199254740994) (Fin 1) = Fin 9007199254740992" by code_simp
lemma add_1_big: "js_add (Fin 1) (Fin 9007199254740992) = Fin 9007199254740992" by code_simp

lemma num_or_Fin: "r \<noteq> 0 \<Longrightarrow> num_or (Fin r) d = Fin r"
  by (simp add: num_or_def truthy_num_def)

lemma num_or_NaN: "num_or NaN d = d"
  by (simp add: num_or_def truthy_num_def)

lemmas clean_rows_gdp_header_simps = clean_rows_def mk_cleaned_gdp_header num_or_Fin num_or_NaN

section \<open>Rows with an invalid GDP\<close>

lemma find_Some_filter: "find P xs = Some x \<Longrightarrow> \<exists>rest. filter P xs = x # rest"
  by (induction xs) (auto split: if_splits)

lemma filter_around_gap:
  assumes "P a" and "P b" and "\<forall>d \<in> set gap. \<not> P d"
  shows "filter P (pre @ a # gap @ b # post) = filter P pre @ a # b # filter P post"
proof -
  from assms(3) have "filter P gap = []"
    by (simp add: filter_empty_conv)
  with assms(1,2) show ?thesis by simp
qed

lemma clean_rows_gap:
  "clean_rows ''Country Name'' ''Year'' ''GDP'' gap_data =
     [\<lparr>c_country = ''X'', c_year = Fin 2000, gdp = Fin 10\<rparr>,
      \<lparr>c_country = ''X'', c_year = Fin 2001, gdp = NaN\<rparr>,
      \<lparr>c_country = ''X'', c_year = Fin 2002, gdp = Fin 30\<rparr>]"
  by (simp add: gap_data_def table_simps clean_rows_gdp_header_simps year_simps parseNum_simps)

lemma sub_0_10: "js_sub (Fin 0) (Fin 10) = Fin (- 10)" by code_simp
lemma sub_30_0: "js_sub (Fin 30) (Fin 0) = Fin 30" by code_simp

lemma drawForCountry_gap:
  "drawForCountry (clean_rows ''Country Name'' ''Year'' ''GDP'' gap_data) ''X'' =
     Some [\<lparr>wf_type = Start, wf_year = Fin 2000, wf_value = Fin 10,
            wf_start = Fin 0, wf_end = Fin 10\<rparr>,
           \<lparr>wf_type = Decrease, wf_year = Fin 2001, wf_value = Fin (- 10),
            wf_start = Fin 10, wf_end = Fin 0\<rparr>,
           \<lparr>wf_type = Increase, wf_year = Fin 2002, wf_value = Fin 30,
            wf_start = Fin 0, wf_end = Fin 30\<rparr>]"
  by (simp add: clean_rows_gap drawForCountry_unfold js_sort_def year_simps
      computeWaterfall_unfold start_item_def step_item_def num_or_Fin num_or_NaN
      sub_0_10 sub_30_0 ge_pos ge_neg)

text \<open>
  Claim C1, as stated, fails for \<open>computeWaterfall\<close>, which does not filter: on the rows
  X, 2000, 10; X, 2001, nan; X, 2002, 30 the row of 2001 yields an item of its own, with
  delta \<open>0 - 10\<close>, and the item of 2002 has delta \<open>30 - 0\<close>, not \<open>30 - 10\<close>.
\<close>

theorem skip_invalid_counterexample:
  "drawForCountry (clean_rows ''Country Name'' ''Year'' ''GDP'' gap_data) ''X'' =
     Some [\<lparr>wf_type = Start, wf_year = Fin 2000, wf_value = Fin 10,
            wf_start = Fin 0, wf_end = Fin 10\<rparr>,
           \<lparr>wf_type = Decrease, wf_year = Fin 2001, wf_value = Fin (- 10),
            wf_start = Fin 10, wf_end = Fin 0\<rparr>,
           \<lparr>wf_type = Increase, wf_year = Fin 2002, wf_value = Fin 30,
            wf_start = Fin 0, wf_end = Fin 30\<rparr>] \<and>
   js_sub (Fin 30) (Fin 10) = Fin 20 \<and> Fin 30 \<noteq> Fin 20"
  by (simp only: drawForCountry_gap sub_30_10) simp

lemma js_lt_irrefl: "\<not> js_lt a a"
  by (cases a) simp_all

lemma find_first_is_earliest:
  assumes sorted: "sorted_wrt (\<lambda>a b. \<not> js_lt (key b) (key a)) xs"
    and first: "find P xs = Some x"
    and d: "d \<in> set xs" "P d"
  shows "\<not> js_lt (key d) (key x)"
proof -
  from first obtain i where i: "i < length xs" "x = xs ! i" "\<forall>j<i. \<not> P (xs ! j)"
    by (auto simp: find_Some_iff)
  from d(1) obtain m where m: "m < length xs" "d = xs ! m"
    by (auto simp: in_set_conv_nth)
  with d(2) i(3) have "i \<le> m"
    by (meson not_le_imp_less)
  show ?thesis
  proof (cases "i = m")
    case True
    with i m show ?thesis by (simp add: js_lt_irrefl)
  next
    case False
    with \<open>i \<le> m\<close> have "i < m" by simp
    with sorted m(1) have "\<not> js_lt (key (xs ! m)) (key (xs ! i))"
      by (simp add: sorted_wrt_iff_nth_less)
    with i m show ?thesis by simp
  qed
qed

text \<open>
  Claim C1, amended.  In \<open>buildWaterfall\<close> of \<open>script.js\<close>, for the rows of every
  parsed table and every country: there is one item per row with a valid GDP; the first
  item is built from the first row, in the order sorted by year, whose GDP is valid, and
  no row of the country with a valid GDP has an earlier year; and when rows with an
  invalid GDP (or none) lie between two rows \<open>a\<close> and \<open>b\<close> with a valid GDP, the item of
  \<open>b\<close> has the delta \<open>GDP b - GDP a\<close>.  The variant with \<open>computeWaterfall\<close> does not
  filter: whenever \<open>drawForCountry\<close> builds a waterfall, every row of the country, in the
  order that its sort by year gives them, yields the item at its index, and a GDP that is
  invalid (or zero) counts as 0: the end of an item is \<open>gdp || 0\<close> of its row, and from
  the second item on the start is \<open>gdp || 0\<close> of the row before and the delta is the
  difference of the two.
\<close>

theorem buildWaterfall_skips_invalid:
  "length (buildWaterfall (rows data) c) =
     length (filter (\<lambda>d. \<not> js_isNaN (GDP d)) (sorted_group (rows data) c)) \<and>
   (\<forall>first. find (\<lambda>d. \<not> js_isNaN (GDP d)) (sorted_group (rows data) c) = Some first \<longrightarrow>
      buildWaterfall (rows data) c \<noteq> [] \<and>
      buildWaterfall (rows data) c ! 0 =
        \<lparr>item_year = year first, item_value = GDP first, item_type = Base\<rparr> \<and>
      (\<forall>d \<in> set (rows data). country d = Some c \<and> \<not> js_isNaN (GDP d) \<longrightarrow>
         \<not> js_lt (year d) (year first))) \<and>
   (\<forall>pre a gap b post.
      sorted_group (rows data) c = pre @ a # gap @ b # post \<and>
      \<not> js_isNaN (GDP a) \<and> \<not> js_isNaN (GDP b) \<and> (\<forall>d \<in> set gap. js_isNaN (GDP d)) \<longrightarrow>
      length (filter (\<lambda>d. \<not> js_isNaN (GDP d)) pre) + 1 < length (buildWaterfall (rows data) c) \<and>
      item_year (buildWaterfall (rows data) c ! (length (filter (\<lambda>d. \<not> js_isNaN (GDP d)) pre) + 1))
        = year b \<and>
      item_value (buildWaterfall (rows data) c ! (length (filter (\<lambda>d. \<not> js_isNaN (GDP d)) pre) + 1))
        = js_sub (GDP b) (GDP a)) \<and>
   (drawForCountry cl c' = Some ws \<longrightarrow>
      length ws = length (sorted_cleaned cl c') \<and>
      (\<forall>i. i < length ws \<longrightarrow>
         wf_year (ws ! i) = c_year (sorted_cleaned cl c' ! i) \<and>
         wf_end (ws ! i) = num_or (gdp (sorted_cleaned cl c' ! i)) (Fin 0) \<and>
         (js_isNaN (gdp (sorted_cleaned cl c' ! i)) \<longrightarrow> wf_end (ws ! i) = Fin 0) \<and>
         (0 < i \<longrightarrow>
            wf_start (ws ! i) = num_or (gdp (sorted_cleaned cl c' ! (i - 1))) (Fin 0) \<and>
            (js_isNaN (gdp (sorted_cleaned cl c' ! (i - 1))) \<longrightarrow> wf_start (ws ! i) = Fin 0) \<and>
            wf_value (ws ! i) =
              js_sub (num_or (gdp (sorted_cleaned cl c' ! i)) (Fin 0))
                     (num_or (gdp (sorted_cleaned cl c' ! (i - 1))) (Fin 0)))))"
proof (intro conjI allI impI ballI)
  show "length (buildWaterfall (rows data) c) =
     length (filter (\<lambda>d. \<not> js_isNaN (GDP d)) (sorted_group (rows data) c))"
    by (simp add: length_buildWaterfall valid_rows_def)
next
  fix first
  assume "find (\<lambda>d. \<not> js_isNaN (GDP d)) (sorted_group (rows data) c) = Some first"
  then obtain rest where v: "valid_rows (rows data) c = first # rest"
    unfolding valid_rows_def by (blast dest: find_Some_filter)
  then show "buildWaterfall (rows data) c \<noteq> []"
    by (simp add: buildWaterfall_unfold)
  from v show "buildWaterfall (rows data) c ! 0 =
      \<lparr>item_year = year first, item_value = GDP first, item_type = Base\<rparr>"
    by (simp add: buildWaterfall_unfold base_item_def)
next
  fix first d
  assume first: "find (\<lambda>d. \<not> js_isNaN (GDP d)) (sorted_group (rows data) c) = Some first"
    and d: "d \<in> set (rows data)" "country d = Some c \<and> \<not> js_isNaN (GDP d)"
  from d have "d \<in> set (sorted_group (rows data) c)"
    by (simp add: set_sorted_group)
  with sorted_group_rows_sorted [of data c] first d(2)
  show "\<not> js_lt (year d) (year first)"
    by (intro find_first_is_earliest [where P = "\<lambda>d. \<not> js_isNaN (GDP d)"]) simp_all
next
  fix pre :: "row list" and a :: row and gap :: "row list" and b :: row and post :: "row list"
  let ?P = "\<lambda>d::row. \<not> js_isNaN (GDP d)"
  let ?i = "length (filter ?P pre) + 1"
  assume a: "sorted_group (rows data) c = pre @ a # gap @ b # post \<and>
      \<not> js_isNaN (GDP a) \<and> \<not> js_isNaN (GDP b) \<and> (\<forall>d \<in> set gap. js_isNaN (GDP d))"
  then have v: "valid_rows (rows data) c = filter ?P pre @ a # b # filter ?P post"
    unfolding valid_rows_def by (simp add: filter_around_gap)
  then have lt: "?i < length (valid_rows (rows data) c)" by simp
  then show "?i < length (buildWaterfall (rows data) c)"
    by (simp add: length_buildWaterfall)
  have cur: "valid_rows (rows data) c ! ?i = b"
    using v by (simp add: nth_append)
  have prev: "valid_rows (rows data) c ! (?i - 1) = a"
    using v by (simp add: nth_append)
  have item: "buildWaterfall (rows data) c ! ?i = delta_item a b"
    using nth_buildWaterfall [OF _ lt] cur prev by simp
  then show "item_year (buildWaterfall (rows data) c ! ?i) = year b"
    by (simp add: delta_item_def)
  from item show "item_value (buildWaterfall (rows data) c ! ?i) = js_sub (GDP b) (GDP a)"
    by (simp add: delta_item_def)
next
  let ?ds = "sorted_cleaned cl c'"
  assume "drawForCountry cl c' = Some ws"
  then have ws: "ws = computeWaterfall ?ds"
    by (rule drawForCountry_sorted_cleaned)
  then show "length ws = length ?ds"
    by (simp add: length_computeWaterfall)
  fix i
  assume "i < length ws"
  then have i: "i < length ?ds"
    by (simp add: ws length_computeWaterfall)
  show "wf_year (ws ! i) = c_year (?ds ! i)"
    unfolding ws using i by (rule wf_year_computeWaterfall)
  show wend: "wf_end (ws ! i) = num_or (gdp (?ds ! i)) (Fin 0)"
    unfolding ws using i by (rule wf_end_computeWaterfall)
  show "wf_end (ws ! i) = Fin 0" if "js_isNaN (gdp (?ds ! i))"
    using that wend by (simp add: num_or_def truthy_num_def)
  have item: "ws ! i = step_item (?ds ! (i - 1)) (?ds ! i)" if "0 < i"
    unfolding ws using that i by (rule nth_computeWaterfall)
  show wstart: "wf_start (ws ! i) = num_or (gdp (?ds ! (i - 1))) (Fin 0)" if "0 < i"
    using item [OF that] by (simp add: step_item_def)
  show "wf_start (ws ! i) = Fin 0" if "0 < i" and "js_isNaN (gdp (?ds ! (i - 1)))"
    using wstart [OF that(1)] that(2) by (simp add: num_or_def truthy_num_def)
  show "wf_value (ws ! i) =
      js_sub (num_or (gdp (?ds ! i)) (Fin 0)) (num_or (gdp (?ds ! (i - 1))) (Fin 0))" if "0 < i"
    using item [OF that] by (simp add: step_item_def)
qed

lemma rows_gap:
  "rows gap_data =
     [\<lparr>country = Some ''X'', year = Fin 2000, GDP = Fin 10,
       raw = [(''Country Name'', ''X''), (''Year'', ''2000''), (''GDP'', ''10'')]\<rparr>,
      \<lparr>country = Some ''X'', year = Fin 2001, GDP = NaN,
       raw = [(''Country Name'', ''X''), (''Year'', ''2001''), (''GDP'', ''nan'')]\<rparr>,
      \<lparr>country = Some ''X'', year = Fin 2002, GDP = Fin 30,
       raw = [(''Country Name'', ''X''), (''Year'', ''2002''), (''GDP'', ''30'')]\<rparr>]"
  by (simp add: gap_data_def table_simps rows_gdp_header_simps year_simps parseNum_simps)

lemma sorted_group_gap: "sorted_group (rows gap_data) ''X'' = rows gap_data"
  by (simp add: rows_gap sorted_group_def grouped_get_def js_sort_def year_simps)

lemma sorted_cleaned_gap:
  "sorted_cleaned (clean_rows ''Country Name'' ''Year'' ''GDP'' gap_data) ''X'' =
     [\<lparr>c_country = ''X'', c_year = Fin 2000, gdp = Fin 10\<rparr>,
      \<lparr>c_country = ''X'', c_year = Fin 2001, gdp = NaN\<rparr>,
      \<lparr>c_country = ''X'', c_year = Fin 2002, gdp = Fin 30\<rparr>]"
  by (simp add: clean_rows_gap sorted_cleaned_def js_sort_def year_simps)

theorem buildWaterfall_skips_invalid_witness:
  "find (\<lambda>d. \<not> js_isNaN (GDP d)) (sorted_group (rows gap_data) ''X'') = Some (rows gap_data ! 0) \<and>
   sorted_group (rows gap_data) ''X'' =
     [] @ rows gap_data ! 0 # [rows gap_data ! 1] @ rows gap_data ! 2 # [] \<and>
   \<not> js_isNaN (GDP (rows gap_data ! 0)) \<and> js_isNaN (GDP (rows gap_data ! 1)) \<and>
   \<not> js_isNaN (GDP (rows gap_data ! 2)) \<and> country (rows gap_data ! 2) = Some ''X'' \<and>
   length (rows gap_data) = 3 \<and>
   length (buildWaterfall (rows gap_data) ''X'') = 2 \<and>
   buildWaterfall (rows gap_data) ''X'' ! 0 =
     \<lparr>item_year = Fin 2000, item_value = Fin 10, item_type = Base\<rparr> \<and>
   \<not> js_lt (year (rows gap_data ! 2)) (year (rows gap_data ! 0)) \<and>
   item_year (buildWaterfall (rows gap_data) ''X'' ! 1) = Fin 2002 \<and>
   item_value (buildWaterfall (rows gap_data) ''X'' ! 1) = Fin 20 \<and>
   (\<exists>ws. drawForCountry (clean_rows ''Country Name'' ''Year'' ''GDP'' gap_data) ''X'' = Some ws \<and>
         length ws = 3 \<and>
         js_isNaN (gdp (sorted_cleaned (clean_rows ''Country Name'' ''Year'' ''GDP'' gap_data) ''X'' ! 1)) \<and>
         wf_year (ws ! 1) = Fin 2001 \<and> wf_end (ws ! 1) = Fin 0 \<and>
         wf_start (ws ! 2) = Fin 0 \<and> wf_value (ws ! 2) = Fin 30)"
proof -
  let ?P = "\<lambda>d::row. \<not> js_isNaN (GDP d)"
  let ?a = "rows gap_data ! 0" and ?g = "rows gap_data ! 1" and ?b = "rows gap_data ! 2"
  let ?cl = "clean_rows ''Country Name'' ''Year'' ''GDP'' gap_data"
  let ?ds = "sorted_cleaned ?cl ''X''"
  have first: "find ?P (sorted_group (rows gap_data) ''X'') = Some ?a"
    by (simp only: sorted_group_gap) (simp add: rows_gap)
  have shape: "sorted_group (rows gap_data) ''X'' = [] @ ?a # [?g] @ ?b # []"
    by (simp only: sorted_group_gap) (simp add: rows_gap)
  have gdps: "\<not> js_isNaN (GDP ?a)" "js_isNaN (GDP ?g)" "\<not> js_isNaN (GDP ?b)"
      "country ?b = Some ''X''" "length (rows gap_data) = 3"
    by (simp_all add: rows_gap)
  then have hyp: "sorted_group (rows gap_data) ''X'' = [] @ ?a # [?g] @ ?b # [] \<and>
      \<not> js_isNaN (GDP ?a) \<and> \<not> js_isNaN (GDP ?b) \<and> (\<forall>d \<in> set [?g]. js_isNaN (GDP d))"
    using shape by simp
  have mem: "?b \<in> set (rows gap_data)"
    using gdps(5) by simp
  obtain ws where ws: "drawForCountry ?cl ''X'' = Some ws"
    using drawForCountry_gap by simp
  note main = buildWaterfall_skips_invalid [of gap_data "''X''" ?cl "''X''" ws]
  from main have len: "length (buildWaterfall (rows gap_data) ''X'') =
      length (filter ?P (sorted_group (rows gap_data) ''X''))"
    by blast
  have len2: "length (buildWaterfall (rows gap_data) ''X'') = 2"
    unfolding len by (simp only: sorted_group_gap) (simp add: rows_gap)
  from main first have base: "buildWaterfall (rows gap_data) ''X'' ! 0 =
      \<lparr>item_year = year ?a, item_value = GDP ?a, item_type = Base\<rparr>"
    by blast
  from main first mem gdps(3,4) have early: "\<not> js_lt (year ?b) (year ?a)"
    by blast
  from main hyp have delta: "item_year (buildWaterfall (rows gap_data) ''X'' ! (length (filter ?P []) + 1)) = year ?b \<and>
      item_value (buildWaterfall (rows gap_data) ''X'' ! (length (filter ?P []) + 1)) = js_sub (GDP ?b) (GDP ?a)"
    by blast
  have vals: "year ?a = Fin 2000" "GDP ?a = Fin 10" "year ?b = Fin 2002"
      "js_sub (GDP ?b) (GDP ?a) = Fin 20"
    by (simp_all add: rows_gap sub_30_10)
  from main ws have wlen: "length ws = length ?ds"
    by blast
  then have wlen3: "length ws = 3"
    by (simp add: sorted_cleaned_gap)
  then have one: "(1::nat) < length ws" and two: "(2::nat) < length ws" and pos: "0 < (2::nat)"
    by simp_all
  have nan: "js_isNaN (gdp (?ds ! 1))" and nan': "js_isNaN (gdp (?ds ! (2 - 1)))"
    by (simp_all add: sorted_cleaned_gap)
  from main ws one nan have w1: "wf_year (ws ! 1) = c_year (?ds ! 1) \<and> wf_end (ws ! 1) = Fin 0"
    by blast
  from main ws two pos nan' have w2: "wf_start (ws ! 2) = Fin 0 \<and>
      wf_value (ws ! 2) = js_sub (num_or (gdp (?ds ! 2)) (Fin 0)) (num_or (gdp (?ds ! (2 - 1))) (Fin 0))"
    by blast
  have wvals: "c_year (?ds ! 1) = Fin 2001"
      "js_sub (num_or (gdp (?ds ! 2)) (Fin 0)) (num_or (gdp (?ds ! (2 - 1))) (Fin 0)) = Fin 30"
    by (simp_all add: sorted_cleaned_gap num_or_Fin num_or_NaN sub_30_0)
  from ws wlen3 nan w1 w2 wvals
  have variant: "\<exists>ws. drawForCountry ?cl ''X'' = Some ws \<and> length ws = 3 \<and>
         js_isNaN (gdp (?ds ! 1)) \<and> wf_year (ws ! 1) = Fin 2001 \<and> wf_end (ws ! 1) = Fin 0 \<and>
         wf_start (ws ! 2) = Fin 0 \<and> wf_value (ws ! 2) = Fin 30"
    by (intro exI [of _ ws]) simp
  from first shape gdps len2 base early delta vals have script:
    "find ?P (sorted_group (rows gap_data) ''X'') = Some ?a \<and>
     sorted_group (rows gap_data) ''X'' = [] @ ?a # [?g] @ ?b # [] \<and>
     \<not> js_isNaN (GDP ?a) \<and> js_isNaN (GDP ?g) \<and> \<not> js_isNaN (GDP ?b) \<and>
     country ?b = Some ''X'' \<and> length (rows gap_data) = 3 \<and>
     length (buildWaterfall (rows gap_data) ''X'') = 2 \<and>
     buildWaterfall (rows gap_data) ''X'' ! 0 =
       \<lparr>item_year = Fin 2000, item_value = Fin 10, item_type = Base\<rparr> \<and>
     \<not> js_lt (year ?b) (year ?a) \<and>
     item_year (buildWaterfall (rows gap_data) ''X'' ! 1) = Fin 2002 \<and>
     item_value (buildWaterfall (rows gap_data) ''X'' ! 1) = Fin 20"
    by simp
  from script variant show ?thesis
    by (elim conjE) (intro conjI; assumption)
qed

section \<open>The chain of bars\<close>

lemma drawForCountry_rows:
  assumes "drawForCountry (clean_rows ck yk gk data) c = Some ws"
  obtains ds where "ws = computeWaterfall ds" and "ds \<noteq> []"
    and "\<forall>d \<in> set ds. js_isNaN (gdp d) \<or> js_isFinite (gdp d)"
    and "\<forall>d \<in> set ds. is_double (gdp d)"
proof -
  let ?ds = "js_sort (\<lambda>a b. js_sub (c_year a) (c_year b))
               (filter (\<lambda>d. c_country d = c) (clean_rows ck yk gk data))"
  from assms have ws: "ws = computeWaterfall ?ds"
    and "filter (\<lambda>d. c_country d = c) (clean_rows ck yk gk data) \<noteq> []"
    by (simp_all add: drawForCountry_unfold split: if_splits)
  then have "length ?ds \<noteq> 0"
    by (simp add: length_js_sort)
  then have ne: "?ds \<noteq> []"
    by (simp only: length_0_conv not_False_eq_True)
  have fin: "\<forall>d \<in> set ?ds. js_isNaN (gdp d) \<or> js_isFinite (gdp d)"
    by (auto simp: set_js_sort dest: clean_rows_gdp)
  have dbl: "\<forall>d \<in> set ?ds. is_double (gdp d)"
    by (auto simp: set_js_sort dest: clean_rows_gdp_is_double)
  from ws ne fin dbl show ?thesis by (rule that)
qed

lemma draw_rounding:
  "draw (rows rounding_data) ''X'' =
     Some [\<lparr>item_year = Fin 2000, item_value = Fin 1, item_type = Base,
            bar_start = Fin 0, bar_end = Fin 1, cumulative = Fin 1\<rparr>,
           \<lparr>item_year = Fin 2001, item_value = Fin 9007199254740992, item_type = Increase,
            bar_start = Fin 1, bar_end = Fin 9007199254740992,
            cumulative = Fin 9007199254740992\<rparr>]"
proof -
  have rws: "rows rounding_data =
     [\<lparr>country = Some ''X'', year = Fin 2000, GDP = Fin 1,
       raw = [(''Country Name'', ''X''), (''Year'', ''2000''), (''GDP'', ''1'')]\<rparr>,
      \<lparr>country = Some ''X'', year = Fin 2001, GDP = Fin 9007199254740994,
       raw = [(''Country Name'', ''X''), (''Year'', ''2001''), (''GDP'', ''9007199254740994'')]\<rparr>]"
    by (simp add: rounding_data_def table_simps rows_gdp_header_simps year_simps parseNum_simps)
  have valid: "valid_rows (rows rounding_data) ''X'' = rows rounding_data"
    by (simp add: rws valid_rows_def sorted_group_def grouped_get_def js_sort_def year_simps)
  have "buildWaterfall (rows rounding_data) ''X'' =
     [\<lparr>item_year = Fin 2000, item_value = Fin 1, item_type = Base\<rparr>,
      \<lparr>item_year = Fin 2001, item_value = Fin 9007199254740992, item_type = Increase\<rparr>]"
    by (simp add: buildWaterfall_unfold valid)
       (simp add: rws base_item_def delta_item_def sub_big_1 ge_pos)
  then show ?thesis
    by (simp add: draw_def compute_pass_first compute_pass_next fin_or_zero_def add_1_big)
qed

lemma sub_big_m1: "js_sub (Fin 9007199254740992) (Fin 1) = Fin 9007199254740991" by code_simp
lemma sub_0_0: "js_sub (Fin 0) (Fin 0) = Fin 0" by code_simp
lemma sub_10_0: "js_sub (Fin 10) (Fin 0) = Fin 10" by code_simp

lemma clean_rows_invalid_first:
  "clean_rows ''Country Name'' ''Year'' ''GDP'' invalid_first_data =
     [\<lparr>c_country = ''X'', c_year = Fin 2000, gdp = NaN\<rparr>,
      \<lparr>c_country = ''X'', c_year = Fin 2001, gdp = Fin 10\<rparr>]"
  by (simp add: invalid_first_data_def table_simps clean_rows_gdp_header_simps year_simps
      parseNum_simps)

lemma drawForCountry_invalid_first:
  "drawForCountry (clean_rows ''Country Name'' ''Year'' ''GDP'' invalid_first_data) ''X'' =
     Some [\<lparr>wf_type = Start, wf_year = Fin 2000, wf_value = NaN,
            wf_start = Fin 0, wf_end = Fin 0\<rparr>,
           \<lparr>wf_type = Increase, wf_year = Fin 2001, wf_value = Fin 10,
            wf_start = Fin 0, wf_end = Fin 10\<rparr>]"
  by (simp add: clean_rows_invalid_first drawForCountry_unfold js_sort_def year_simps
      computeWaterfall_unfold start_item_def step_item_def num_or_Fin num_or_NaN
      sub_10_0 ge_pos)

text \<open>
  Claim C2, as stated, fails in both variants.  For the bars that \<open>draw\<close> computes by
  accumulation: on the rows X, 2000, 1 and X, 2001, 9007199254740994 the second bar has
  delta 9007199254740992, start 1 and end 9007199254740992, and end minus start is
  9007199254740991.  For the first item of \<open>computeWaterfall\<close>: on the rows X, 2000, nan
  and X, 2001, 10 the first item has a value that is not a number, start 0 and end 0, and
  end minus start is 0.
\<close>

theorem waterfall_chain_counterexample:
  "draw (rows rounding_data) ''X'' =
     Some [\<lparr>item_year = Fin 2000, item_value = Fin 1, item_type = Base,
            bar_start = Fin 0, bar_end = Fin 1, cumulative = Fin 1\<rparr>,
           \<lparr>item_year = Fin 2001, item_value = Fin 9007199254740992, item_type = Increase,
            bar_start = Fin 1, bar_end = Fin 9007199254740992,
            cumulative = Fin 9007199254740992\<rparr>] \<and>
   js_sub (Fin 9007199254740992) (Fin 1) = Fin 9007199254740991 \<and>
   \<not> js_eq (js_sub (Fin 9007199254740992) (Fin 1)) (Fin 9007199254740992) \<and>
   drawForCountry (clean_rows ''Country Name'' ''Year'' ''GDP'' invalid_first_data) ''X'' =
     Some [\<lparr>wf_type = Start, wf_year = Fin 2000, wf_value = NaN,
            wf_start = Fin 0, wf_end = Fin 0\<rparr>,
           \<lparr>wf_type = Increase, wf_year = Fin 2001, wf_value = Fin 10,
            wf_start = Fin 0, wf_end = Fin 10\<rparr>] \<and>
   js_sub (Fin 0) (Fin 0) = Fin 0 \<and>
   \<not> js_eq (js_sub (Fin 0) (Fin 0)) NaN"
  by (simp only: draw_rounding sub_big_m1 drawForCountry_invalid_first sub_0_0)
     (simp add: js_eq_def)

text \<open>
  Claim C2, amended.  In every waterfall that \<open>draw\<close> computes from the rows of a parsed
  table, the first bar is the base item, starts at 0 and ends at its value, so that end
  minus start equals the value; for every index \<open>i > 0\<close> the start of bar \<open>i\<close> equals
  the end of bar \<open>i - 1\<close>, the end of bar \<open>i\<close> is the floating-point sum of its start and
  its delta (a delta that is not finite counts as 0), and a delta \<open>>= 0\<close> gives an
  increase, a delta \<open>< 0\<close> a decrease; end minus start equals the delta whenever start,
  end and delta are finite and that sum was exact (the end denotes the sum of the reals that
  start and delta denote).  In the variant with \<open>computeWaterfall\<close>,
  on the cleaned rows of a parsed table, the first item is the start item and starts at 0;
  when its value is a number, end minus start equals the value, and when its value is not a
  number its end is 0; for every \<open>i > 0\<close> the start of item \<open>i\<close> equals the end of item
  \<open>i - 1\<close>, end minus start equals the delta, and the sign of the delta gives the kind in
  the same way.
\<close>

theorem waterfall_chain:
  "(draw (rows data) c = Some cs \<longrightarrow>
      item_type (cs ! 0) = Base \<and>
      bar_start (cs ! 0) = Fin 0 \<and> bar_end (cs ! 0) = item_value (cs ! 0) \<and>
      js_eq (js_sub (bar_end (cs ! 0)) (bar_start (cs ! 0))) (item_value (cs ! 0)) \<and>
      (\<forall>i. 0 < i \<and> i < length cs \<longrightarrow>
         js_eq (bar_start (cs ! i)) (bar_end (cs ! (i - 1))) \<and>
         bar_end (cs ! i) = js_add (bar_start (cs ! i)) (fin_or_zero (item_value (cs ! i))) \<and>
         (js_isFinite (bar_start (cs ! i)) \<and> js_isFinite (bar_end (cs ! i)) \<and>
          js_isFinite (item_value (cs ! i)) \<and>
          val (bar_end (cs ! i)) = val (bar_start (cs ! i)) + val (item_value (cs ! i)) \<longrightarrow>
            js_eq (js_sub (bar_end (cs ! i)) (bar_start (cs ! i))) (item_value (cs ! i))) \<and>
         (js_ge (item_value (cs ! i)) (Fin 0) \<longrightarrow> item_type (cs ! i) = Increase) \<and>
         (js_lt (item_value (cs ! i)) (Fin 0) \<longrightarrow> item_type (cs ! i) = Decrease))) \<and>
   (drawForCountry (clean_rows ck yk gk data) c = Some ws \<longrightarrow>
      wf_type (ws ! 0) = Start \<and> wf_start (ws ! 0) = Fin 0 \<and>
      (\<not> js_isNaN (wf_value (ws ! 0)) \<longrightarrow>
         js_eq (js_sub (wf_end (ws ! 0)) (wf_start (ws ! 0))) (wf_value (ws ! 0))) \<and>
      (js_isNaN (wf_value (ws ! 0)) \<longrightarrow> wf_end (ws ! 0) = Fin 0) \<and>
      (\<forall>i. 0 < i \<and> i < length ws \<longrightarrow>
         js_eq (wf_start (ws ! i)) (wf_end (ws ! (i - 1))) \<and>
         js_eq (js_sub (wf_end (ws ! i)) (wf_start (ws ! i))) (wf_value (ws ! i)) \<and>
         (js_ge (wf_value (ws ! i)) (Fin 0) \<longrightarrow> wf_type (ws ! i) = Increase) \<and>
         (js_lt (wf_value (ws ! i)) (Fin 0) \<longrightarrow> wf_type (ws ! i) = Decrease)))"
proof (intro conjI impI allI)
  let ?valid = "valid_rows (rows data) c"
  let ?items = "buildWaterfall (rows data) c"
  assume "draw (rows data) c = Some cs"
  then have ne: "?valid \<noteq> []" and cs: "cs = compute_pass 0 (Fin 0) ?items"
    by (simp_all add: draw_unfold split: if_splits)
  from ne have items_ne: "?items \<noteq> []"
    using length_buildWaterfall [of "rows data" c] by auto
  have first: "?items ! 0 = base_item (?valid ! 0)"
    using ne by (rule hd_buildWaterfall)
  have mem: "?valid ! 0 \<in> set ?valid"
    using ne by simp
  then have fin: "js_isFinite (GDP (?valid ! 0))"
    by (rule valid_rows_finite)
  from mem have "?valid ! 0 \<in> set (rows data)"
    by (simp add: set_valid_rows)
  then have dbl: "is_double (GDP (?valid ! 0))"
    by (rule rows_GDP_is_double)
  have pos: "0 < length ?items"
    using items_ne by simp
  note head = compute_pass_fields [OF pos, of 0 "Fin 0"]
  show "item_type (cs ! 0) = Base"
    using head first by (simp add: cs base_item_def)
  show start0: "bar_start (cs ! 0) = Fin 0"
    unfolding cs using items_ne by (rule compute_pass_zero_head)
  have value0: "item_value (cs ! 0) = GDP (?valid ! 0)"
    using head first by (simp add: cs base_item_def)
  from head compute_pass_zero_head(2) [OF items_ne, of "Fin 0"]
  show end0: "bar_end (cs ! 0) = item_value (cs ! 0)"
    using first fin by (simp add: cs base_item_def fin_or_zero_finite)
  show "js_eq (js_sub (bar_end (cs ! 0)) (bar_start (cs ! 0))) (item_value (cs ! 0))"
    using js_sub_zero [OF fin dbl] by (simp only: end0 start0 value0)
  fix i
  assume "0 < i \<and> i < length cs"
  then have i: "0 < i" "i < length ?items"
    by (simp_all add: cs length_compute_pass)
  then have iv: "i < length ?valid"
    by (simp add: length_buildWaterfall)
  note fields = compute_pass_fields [OF i(2), of 0 "Fin 0"]
  note chain = compute_pass_zero_chain [OF i, of "Fin 0"]
  have item: "?items ! i = delta_item (?valid ! (i - 1)) (?valid ! i)"
    using i(1) iv by (rule nth_buildWaterfall)
  show "js_eq (bar_start (cs ! i)) (bar_end (cs ! (i - 1)))"
    using chain(1,2) by (simp add: cs js_eq_refl)
  show "bar_end (cs ! i) = js_add (bar_start (cs ! i)) (fin_or_zero (item_value (cs ! i)))"
    using chain(3) fields by (simp add: cs)
  show "js_eq (js_sub (bar_end (cs ! i)) (bar_start (cs ! i))) (item_value (cs ! i))"
    if "js_isFinite (bar_start (cs ! i)) \<and> js_isFinite (bar_end (cs ! i)) \<and>
        js_isFinite (item_value (cs ! i)) \<and>
        val (bar_end (cs ! i)) = val (bar_start (cs ! i)) + val (item_value (cs ! i))"
  proof -
    have "item_value (cs ! i) = item_value (?items ! i)"
      using fields by (simp add: cs)
    with item have "is_double (item_value (cs ! i))"
      by (simp add: delta_item_def js_sub_is_double)
    with that show ?thesis
      by (intro js_sub_exact) simp_all
  qed
  show "item_type (cs ! i) = Increase" if "js_ge (item_value (cs ! i)) (Fin 0)"
    using that fields item delta_item_kind [of "?valid ! (i - 1)" "?valid ! i"] by (simp add: cs)
  show "item_type (cs ! i) = Decrease" if "js_lt (item_value (cs ! i)) (Fin 0)"
    using that fields item delta_item_kind [of "?valid ! (i - 1)" "?valid ! i"] by (simp add: cs)
next
  assume "drawForCountry (clean_rows ck yk gk data) c = Some ws"
  then obtain ds where ws: "ws = computeWaterfall ds" and ne: "ds \<noteq> []"
    and gdps: "\<forall>d \<in> set ds. js_isNaN (gdp d) \<or> js_isFinite (gdp d)"
    and dbl: "\<forall>d \<in> set ds. is_double (gdp d)"
    by (rule drawForCountry_rows)
  have item0: "ws ! 0 = start_item (ds ! 0)"
    unfolding ws using ne by (rule hd_computeWaterfall)
  from ne have mem: "ds ! 0 \<in> set ds"
    by simp
  show "wf_type (ws ! 0) = Start" and "wf_start (ws ! 0) = Fin 0"
    by (simp_all add: item0 start_item_def)
  show "js_eq (js_sub (wf_end (ws ! 0)) (wf_start (ws ! 0))) (wf_value (ws ! 0))"
    if "\<not> js_isNaN (wf_value (ws ! 0))"
  proof -
    from that have "\<not> js_isNaN (gdp (ds ! 0))"
      by (simp add: item0 start_item_def)
    with gdps mem have "js_isFinite (gdp (ds ! 0))"
      by blast
    moreover from dbl mem have "is_double (gdp (ds ! 0))"
      by blast
    ultimately have "js_eq (js_sub (num_or (gdp (ds ! 0)) (Fin 0)) (Fin 0)) (gdp (ds ! 0))"
      by (rule js_sub_num_or_zero)
    then show ?thesis
      by (simp add: item0 start_item_def)
  qed
  show "wf_end (ws ! 0) = Fin 0" if "js_isNaN (wf_value (ws ! 0))"
    using that by (simp add: item0 start_item_def num_or_def truthy_num_def)
  fix i
  assume "0 < i \<and> i < length ws"
  then have i: "0 < i" "i < length ds"
    by (simp_all add: ws length_computeWaterfall)
  then have prev: "i - 1 < length ds"
    by simp
  have item: "ws ! i = step_item (ds ! (i - 1)) (ds ! i)"
    unfolding ws using i by (rule nth_computeWaterfall)
  have fin_prev: "js_isFinite (num_or (gdp (ds ! (i - 1))) (Fin 0))"
    using gdps prev by (simp add: num_or_finite)
  have fin_cur: "js_isFinite (num_or (gdp (ds ! i)) (Fin 0))"
    using gdps i(2) by (simp add: num_or_finite)
  show "js_eq (wf_start (ws ! i)) (wf_end (ws ! (i - 1)))"
    using wf_end_computeWaterfall [OF prev] item
    by (simp add: ws step_item_def js_eq_refl num_or_not_NaN)
  show "js_eq (js_sub (wf_end (ws ! i)) (wf_start (ws ! i))) (wf_value (ws ! i))"
    using item fin_prev fin_cur
    by (simp add: step_item_def js_eq_refl js_sub_not_NaN js_isFinite_not_NaN)
  show "wf_type (ws ! i) = Increase" if "js_ge (wf_value (ws ! i)) (Fin 0)"
    using that item step_item_kind [of "ds ! (i - 1)" "ds ! i"] by simp
  show "wf_type (ws ! i) = Decrease" if "js_lt (wf_value (ws ! i)) (Fin 0)"
    using that item step_item_kind [of "ds ! (i - 1)" "ds ! i"] by simp
qed

lemma sub_10_30: "js_sub (Fin 10) (Fin 30) = Fin (- 20)" by code_simp
lemma add_10_20: "js_add (Fin 10) (Fin 20) = Fin 30" by code_simp
lemma add_30_m20: "js_add (Fin 30) (Fin (- 20)) = Fin 10" by code_simp

lemma rows_updown:
  "rows updown_data =
     [\<lparr>country = Some ''X'', year = Fin 2000, GDP = Fin 10,
       raw = [(''Country Name'', ''X''), (''Year'', ''2000''), (''GDP'', ''10'')]\<rparr>,
      \<lparr>country = Some ''X'', year = Fin 2001, GDP = Fin 30,
       raw = [(''Country Name'', ''X''), (''Year'', ''2001''), (''GDP'', ''30'')]\<rparr>,
      \<lparr>country = Some ''X'', year = Fin 2002, GDP = Fin 10,
       raw = [(''Country Name'', ''X''), (''Year'', ''2002''), (''GDP'', ''10'')]\<rparr>]"
  by (simp add: updown_data_def table_simps rows_gdp_header_simps year_simps parseNum_simps)

lemma draw_updown:
  "draw (rows updown_data) ''X'' =
     Some [\<lparr>item_year = Fin 2000, item_value = Fin 10, item_type = Base,
            bar_start = Fin 0, bar_end = Fin 10, cumulative = Fin 10\<rparr>,
           \<lparr>item_year = Fin 2001, item_value = Fin 20, item_type = Increase,
            bar_start = Fin 10, bar_end = Fin 30, cumulative = Fin 30\<rparr>,
           \<lparr>item_year = Fin 2002, item_value = Fin (- 20), item_type = Decrease,
            bar_start = Fin 30, bar_end = Fin 10, cumulative = Fin 10\<rparr>]"
proof -
  have valid: "valid_rows (rows updown_data) ''X'' = rows updown_data"
    by (simp add: rows_updown valid_rows_def sorted_group_def grouped_get_def js_sort_def
        year_simps)
  have "buildWaterfall (rows updown_data) ''X'' =
     [\<lparr>item_year = Fin 2000, item_value = Fin 10, item_type = Base\<rparr>,
      \<lparr>item_year = Fin 2001, item_value = Fin 20, item_type = Increase\<rparr>,
      \<lparr>item_year = Fin 2002, item_value = Fin (- 20), item_type = Decrease\<rparr>]"
    by (simp add: buildWaterfall_unfold valid)
       (simp add: rows_updown base_item_def delta_item_def sub_30_10 sub_10_30 ge_pos ge_neg)
  then show ?thesis
    by (simp add: draw_def compute_pass_first compute_pass_next fin_or_zero_def
        add_10_20 add_30_m20)
qed

lemma clean_rows_updown:
  "clean_rows ''Country Name'' ''Year'' ''GDP'' updown_data =
     [\<lparr>c_country = ''X'', c_year = Fin 2000, gdp = Fin 10\<rparr>,
      \<lparr>c_country = ''X'', c_year = Fin 2001, gdp = Fin 30\<rparr>,
      \<lparr>c_country = ''X'', c_year = Fin 2002, gdp = Fin 10\<rparr>]"
  by (simp add: updown_data_def table_simps clean_rows_gdp_header_simps year_simps parseNum_simps)

lemma drawForCountry_updown:
  "drawForCountry (clean_rows ''Country Name'' ''Year'' ''GDP'' updown_data) ''X'' =
     Some [\<lparr>wf_type = Start, wf_year = Fin 2000, wf_value = Fin 10,
            wf_start = Fin 0, wf_end = Fin 10\<rparr>,
           \<lparr>wf_type = Increase, wf_year = Fin 2001, wf_value = Fin 20,
            wf_start = Fin 10, wf_end = Fin 30\<rparr>,
           \<lparr>wf_type = Decrease, wf_year = Fin 2002, wf_value = Fin (- 20),
            wf_start = Fin 30, wf_end = Fin 10\<rparr>]"
  by (simp add: clean_rows_updown drawForCountry_unfold js_sort_def year_simps
      computeWaterfall_unfold start_item_def step_item_def num_or_Fin sub_30_10 sub_10_30
      ge_pos ge_neg)

theorem waterfall_chain_witness:
  "(\<exists>cs. draw (rows updown_data) ''X'' = Some cs \<and> length cs = 3 \<and>
         item_type (cs ! 0) = Base \<and>
         bar_start (cs ! 0) = Fin 0 \<and> bar_end (cs ! 0) = item_value (cs ! 0) \<and>
         js_eq (js_sub (bar_end (cs ! 0)) (bar_start (cs ! 0))) (item_value (cs ! 0)) \<and>
         js_eq (bar_start (cs ! 1)) (bar_end (cs ! 0)) \<and>
         bar_end (cs ! 1) = js_add (bar_start (cs ! 1)) (fin_or_zero (item_value (cs ! 1))) \<and>
         js_isFinite (bar_start (cs ! 1)) \<and> js_isFinite (bar_end (cs ! 1)) \<and>
         js_isFinite (item_value (cs ! 1)) \<and>
         val (bar_end (cs ! 1)) = val (bar_start (cs ! 1)) + val (item_value (cs ! 1)) \<and>
         js_eq (js_sub (bar_end (cs ! 1)) (bar_start (cs ! 1))) (item_value (cs ! 1)) \<and>
         js_ge (item_value (cs ! 1)) (Fin 0) \<and> item_type (cs ! 1) = Increase \<and>
         js_eq (bar_start (cs ! 2)) (bar_end (cs ! 1)) \<and>
         js_lt (item_value (cs ! 2)) (Fin 0) \<and> item_type (cs ! 2) = Decrease) \<and>
   (\<exists>ws. drawForCountry (clean_rows ''Country Name'' ''Year'' ''GDP'' updown_data) ''X'' = Some ws \<and>
         length ws = 3 \<and>
         wf_type (ws ! 0) = Start \<and> wf_start (ws ! 0) = Fin 0 \<and>
         \<not> js_isNaN (wf_value (ws ! 0)) \<and>
         js_eq (js_sub (wf_end (ws ! 0)) (wf_start (ws ! 0))) (wf_value (ws ! 0)) \<and>
         js_eq (wf_start (ws ! 1)) (wf_end (ws ! 0)) \<and>
         js_eq (js_sub (wf_end (ws ! 1)) (wf_start (ws ! 1))) (wf_value (ws ! 1)) \<and>
         js_ge (wf_value (ws ! 1)) (Fin 0) \<and> wf_type (ws ! 1) = Increase \<and>
         js_eq (wf_start (ws ! 2)) (wf_end (ws ! 1)) \<and>
         js_eq (js_sub (wf_end (ws ! 2)) (wf_start (ws ! 2))) (wf_value (ws ! 2)) \<and>
         js_lt (wf_value (ws ! 2)) (Fin 0) \<and> wf_type (ws ! 2) = Decrease) \<and>
   (\<exists>ws. drawForCountry (clean_rows ''Country Name'' ''Year'' ''GDP'' invalid_first_data) ''X'' =
           Some ws \<and>
         js_isNaN (wf_value (ws ! 0)) \<and> wf_start (ws ! 0) = Fin 0 \<and> wf_end (ws ! 0) = Fin 0)"
proof -
  obtain cs where cs: "draw (rows updown_data) ''X'' = Some cs" and len: "length cs = 3"
    and up: "js_ge (item_value (cs ! 1)) (Fin 0)" and down: "js_lt (item_value (cs ! 2)) (Fin 0)"
    and f1: "js_isFinite (bar_start (cs ! 1))" and f2: "js_isFinite (bar_end (cs ! 1))"
    and f3: "js_isFinite (item_value (cs ! 1))"
    and f4: "val (bar_end (cs ! 1)) = val (bar_start (cs ! 1)) + val (item_value (cs ! 1))"
    using draw_updown by (simp add: js_ge_def)
  obtain ws where ws: "drawForCountry (clean_rows ''Country Name'' ''Year'' ''GDP'' updown_data) ''X'' = Some ws"
    and wlen: "length ws = 3" and wnum: "\<not> js_isNaN (wf_value (ws ! 0))"
    and wup: "js_ge (wf_value (ws ! 1)) (Fin 0)" and wdown: "js_lt (wf_value (ws ! 2)) (Fin 0)"
    using drawForCountry_updown by (simp add: js_ge_def)
  obtain vs where vs: "drawForCountry (clean_rows ''Country Name'' ''Year'' ''GDP'' invalid_first_data) ''X'' = Some vs"
    and vnan: "js_isNaN (wf_value (vs ! 0))"
    using drawForCountry_invalid_first by simp
  note chain = waterfall_chain [of updown_data "''X''" cs "''Country Name''" "''Year''" "''GDP''" ws]
  note other = waterfall_chain [of invalid_first_data "''X''" cs "''Country Name''" "''Year''" "''GDP''" vs]
  have one: "0 < (1::nat) \<and> 1 < length cs" and two: "0 < (2::nat) \<and> 2 < length cs"
    using len by simp_all
  have wone: "0 < (1::nat) \<and> 1 < length ws" and wtwo: "0 < (2::nat) \<and> 2 < length ws"
    using wlen by simp_all
  have idx: "(1::nat) - 1 = 0" "(2::nat) - 1 = 1"
    by simp_all
  from chain cs have h1: "item_type (cs ! 0) = Base" and h2: "bar_start (cs ! 0) = Fin 0"
    and h3: "bar_end (cs ! 0) = item_value (cs ! 0)"
    and h4: "js_eq (js_sub (bar_end (cs ! 0)) (bar_start (cs ! 0))) (item_value (cs ! 0))"
    by blast+
  from chain cs one up have b1: "js_eq (bar_start (cs ! 1)) (bar_end (cs ! (1 - 1)))"
    and b2: "bar_end (cs ! 1) = js_add (bar_start (cs ! 1)) (fin_or_zero (item_value (cs ! 1)))"
    and b3: "item_type (cs ! 1) = Increase"
    by blast+
  from f1 f2 f3 f4 have exact: "js_isFinite (bar_start (cs ! 1)) \<and> js_isFinite (bar_end (cs ! 1)) \<and>
      js_isFinite (item_value (cs ! 1)) \<and>
      val (bar_end (cs ! 1)) = val (bar_start (cs ! 1)) + val (item_value (cs ! 1))"
    by (intro conjI)
  from chain cs one exact
  have b6: "js_eq (js_sub (bar_end (cs ! 1)) (bar_start (cs ! 1))) (item_value (cs ! 1))"
    by blast
  from chain cs two down have b4: "js_eq (bar_start (cs ! 2)) (bar_end (cs ! (2 - 1)))"
    and b5: "item_type (cs ! 2) = Decrease"
    by blast+
  from chain ws wnum have v1: "wf_type (ws ! 0) = Start" and v2: "wf_start (ws ! 0) = Fin 0"
    and v3: "js_eq (js_sub (wf_end (ws ! 0)) (wf_start (ws ! 0))) (wf_value (ws ! 0))"
    by blast+
  from chain ws wone wup have w1: "js_eq (wf_start (ws ! 1)) (wf_end (ws ! (1 - 1)))"
    and w2: "js_eq (js_sub (wf_end (ws ! 1)) (wf_start (ws ! 1))) (wf_value (ws ! 1))"
    and w3: "wf_type (ws ! 1) = Increase"
    by blast+
  from chain ws wtwo wdown have w4: "js_eq (wf_start (ws ! 2)) (wf_end (ws ! (2 - 1)))"
    and w5: "js_eq (js_sub (wf_end (ws ! 2)) (wf_start (ws ! 2))) (wf_value (ws ! 2))"
    and w6: "wf_type (ws ! 2) = Decrease"
    by blast+
  from other vs vnan have u1: "wf_start (vs ! 0) = Fin 0" and u2: "wf_end (vs ! 0) = Fin 0"
    by blast+
  note b1' = b1 [unfolded idx] and b4' = b4 [unfolded idx]
  note w1' = w1 [unfolded idx] and w4' = w4 [unfolded idx]
  from cs len h1 h2 h3 h4 b1' b2 f1 f2 f3 f4 b6 up b3 b4' down b5
  have script: "\<exists>cs. draw (rows updown_data) ''X'' = Some cs \<and> length cs = 3 \<and>
         item_type (cs ! 0) = Base \<and>
         bar_start (cs ! 0) = Fin 0 \<and> bar_end (cs ! 0) = item_value (cs ! 0) \<and>
         js_eq (js_sub (bar_end (cs ! 0)) (bar_start (cs ! 0))) (item_value (cs ! 0)) \<and>
         js_eq (bar_start (cs ! 1)) (bar_end (cs ! 0)) \<and>
         bar_end (cs ! 1) = js_add (bar_start (cs ! 1)) (fin_or_zero (item_value (cs ! 1))) \<and>
         js_isFinite (bar_start (cs ! 1)) \<and> js_isFinite (bar_end (cs ! 1)) \<and>
         js_isFinite (item_value (cs ! 1)) \<and>
         val (bar_end (cs ! 1)) = val (bar_start (cs ! 1)) + val (item_value (cs ! 1)) \<and>
         js_eq (js_sub (bar_end (cs ! 1)) (bar_start (cs ! 1))) (item_value (cs ! 1)) \<and>
         js_ge (item_value (cs ! 1)) (Fin 0) \<and> item_type (cs ! 1) = Increase \<and>
         js_eq (bar_start (cs ! 2)) (bar_end (cs ! 1)) \<and>
         js_lt (item_value (cs ! 2)) (Fin 0) \<and> item_type (cs ! 2) = Decrease"
    by (intro exI [of _ cs] conjI)
  from ws wlen v1 v2 wnum v3 w1' w2 wup w3 w4' w5 wdown w6
  have variant: "\<exists>ws. drawForCountry (clean_rows ''Country Name'' ''Year'' ''GDP'' updown_data) ''X'' = Some ws \<and>
         length ws = 3 \<and>
         wf_type (ws ! 0) = Start \<and> wf_start (ws ! 0) = Fin 0 \<and>
         \<not> js_isNaN (wf_value (ws ! 0)) \<and>
         js_eq (js_sub (wf_end (ws ! 0)) (wf_start (ws ! 0))) (wf_value (ws ! 0)) \<and>
         js_eq (wf_start (ws ! 1)) (wf_end (ws ! 0)) \<and>
         js_eq (js_sub (wf_end (ws ! 1)) (wf_start (ws ! 1))) (wf_value (ws ! 1)) \<and>
         js_ge (wf_value (ws ! 1)) (Fin 0) \<and> wf_type (ws ! 1) = Increase \<and>
         js_eq (wf_start (ws ! 2)) (wf_end (ws ! 1)) \<and>
         js_eq (js_sub (wf_end (ws ! 2)) (wf_start (ws ! 2))) (wf_value (ws ! 2)) \<and>
         js_lt (wf_value (ws ! 2)) (Fin 0) \<and> wf_type (ws ! 2) = Decrease"
    by (intro exI [of _ ws] conjI)
  from vs vnan u1 u2
  have invalid: "\<exists>ws. drawForCountry (clean_rows ''Country Name'' ''Year'' ''GDP'' invalid_first_data) ''X'' =
           Some ws \<and>
         js_isNaN (wf_value (ws ! 0)) \<and> wf_start (ws ! 0) = Fin 0 \<and> wf_end (ws ! 0) = Fin 0"
    by (intro exI [of _ vs] conjI)
  from script variant invalid show ?thesis
    by (intro conjI)
qed

section \<open>The example of the specification\<close>

text \<open>
  Claim C3, as stated, fails.  On the table with header \<open>Country Name\<close>, \<open>Year\<close>, \<open>GDP\<close> and
  the rows (Germany, 2000, 1.000,5) and (Germany, 2001, 1100) the normalizer does not
  yield 1000.5 and 1100: the comma becomes a second point, and \<open>parseFloat\<close> reads
  \<open>1.000.5\<close> up to the second point.
\<close>

theorem germany_example_counterexample:
  "map GDP (rows germany_data) \<noteq> [Fin (2001 / 2), Fin 1100]"
  by (simp add: rows_germany)

text \<open>
  Claim C3, amended.  On that table the normalizer yields the GDP values 1 and 1100, and
  the waterfall of Germany is exactly two items: a base item with end 1, then an increase
  with delta 1099 and end 1100.
\<close>

theorem germany_example:
  "map GDP (rows germany_data) = [Fin 1, Fin 1100] \<and>
   draw (rows germany_data) ''Germany'' =
     Some [\<lparr>item_year = Fin 2000, item_value = Fin 1, item_type = Base,
            bar_start = Fin 0, bar_end = Fin 1, cumulative = Fin 1\<rparr>,
           \<lparr>item_year = Fin 2001, item_value = Fin 1099, item_type = Increase,
            bar_start = Fin 1, bar_end = Fin 1100, cumulative = Fin 1100\<rparr>]"
  by (simp only: draw_germany) (simp add: rows_germany)

section \<open>The steps of the normalizer\<close>

lemma trim_right_Cons:
  "rev (dropWhile P (rev (a # s))) =
     (if (\<forall>x \<in> set s. P x) \<and> P a then [] else a # rev (dropWhile P (rev s)))"
  by (simp add: dropWhile_append)

lemma trim_commute:
  "rev (dropWhile P (rev (dropWhile P s))) = dropWhile P (rev (dropWhile P (rev s)))"
proof (induction s)
  case Nil
  show ?case by simp
next
  case (Cons a s)
  show ?case
  proof (cases "P a")
    case True
    have "dropWhile P (rev (dropWhile P (rev (a # s)))) = dropWhile P (rev (dropWhile P (rev s)))"
    proof (cases "\<forall>x \<in> set s. P x")
      case True
      then have e: "dropWhile P (rev s) = []"
        by (simp add: dropWhile_eq_Nil_conv)
      from True \<open>P a\<close> have "dropWhile P (rev (a # s)) = []"
        by (simp add: dropWhile_eq_Nil_conv)
      then show ?thesis
        unfolding e by (simp only:)
    next
      case False
      with \<open>P a\<close> show ?thesis by (auto simp: dropWhile_append)
    qed
    with True Cons show ?thesis by simp
  next
    case False
    then show ?thesis
      by (simp add: dropWhile_append)
  qed
qed

lemma js_trim_spec_trim: "js_trim s = spec_trim s"
  unfolding js_trim_def spec_trim_def by (rule trim_commute)

lemma lower_char_n: "lower_char (CHR ''n'') = CHR ''n''" by code_simp
lemma lower_char_a: "lower_char (CHR ''a'') = CHR ''a''" by code_simp

lemma toLowerCase_nan: "(toLowerCase v = ''nan'') = equal_ignoring_case v ''nan''"
  by (auto simp: toLowerCase_def equal_ignoring_case_def list_all2_Cons2 lower_char_n lower_char_a)

lemma replace_all_delete: "replace_all cls [] s = filter (\<lambda>c. \<not> cls c) s"
  unfolding replace_all_def by (induction s) simp_all

lemma replace_all_char: "replace_all cls [r] s = map (\<lambda>c. if cls c then r else c) s"
  unfolding replace_all_def by (induction s) simp_all

lemma replace_all_keep:
  "replace_all (\<lambda>c. c \<notin> set ''0123456789eE+.-'') [] x =
     filter (\<lambda>c. is_digit c \<or> c = CHR ''e'' \<or> c = CHR ''E'' \<or> c = CHR ''+'' \<or>
                  c = CHR ''.'' \<or> c = CHR ''-'') x"
  by (simp add: replace_all_delete is_digit_def)

lemma replace_all_comma:
  "replace_all (\<lambda>c. c = CHR '','') ''.'' x = map (\<lambda>c. if c = CHR '','' then CHR ''.'' else c) x"
  by (rule replace_all_char)

text \<open>
  Claim C4.  For every input string, \<open>parseNum\<close> yields what the steps of the
  specification yield: trim; NaN for the empty string and for \<open>nan\<close> in any case; white
  space removed; every comma replaced by a point; every character other than a digit,
  \<open>e\<close>, \<open>E\<close>, \<open>+\<close>, \<open>.\<close>, \<open>-\<close> removed; the rest parsed as a float; NaN unless the
  result is finite.
\<close>

theorem normalizer_steps: "parseNum (Some s) = spec_normalize s"
  unfolding parseNum_def spec_normalize_def js_trim_spec_trim toLowerCase_nan
    replace_all_keep replace_all_comma replace_all_delete option.case Let_def
  by (rule refl)

lemma spec_normalize_spaced: "spec_normalize '' 1 234,56 '' = Fin (2714826150374277 / 2199023255552)"
  by code_simp

lemma spec_normalize_NaN: "spec_normalize ''NaN'' = NaN"
  by code_simp

lemma spec_normalize_currency: "spec_normalize ''$ 1,5e3'' = Fin 1500"
  by code_simp

theorem normalizer_steps_witness:
  "parseNum (Some '' 1 234,56 '') = Fin (2714826150374277 / 2199023255552) \<and>
   parseNum (Some ''NaN'') = NaN \<and>
   parseNum (Some ''$ 1,5e3'') = Fin 1500"
  using normalizer_steps [of "'' 1 234,56 ''"] normalizer_steps [of "''NaN''"]
    normalizer_steps [of "''$ 1,5e3''"]
  by (simp only: spec_normalize_spaced spec_normalize_NaN spec_normalize_currency)

section \<open>The base item\<close>

text \<open>
  Claim C5.  For the rows of any parsed table and any country: when no row of the country
  has a valid GDP, \<open>buildWaterfall\<close> returns no item and \<open>draw\<close> shows no chart; otherwise
  the computed sequence has one item per valid row, its first item is the base item with
  start 0 and with end and cumulative equal to the first valid GDP value, and no later
  item is a base item.
\<close>

theorem base_item_is_first:
  "(valid_rows (rows data) c = [] \<longrightarrow>
       buildWaterfall (rows data) c = [] \<and> draw (rows data) c = None) \<and>
   (valid_rows (rows data) c \<noteq> [] \<longrightarrow>
      (\<exists>cs. draw (rows data) c = Some cs \<and>
            length cs = length (valid_rows (rows data) c) \<and>
            item_type (cs ! 0) = Base \<and>
            bar_start (cs ! 0) = Fin 0 \<and>
            bar_end (cs ! 0) = GDP (valid_rows (rows data) c ! 0) \<and>
            cumulative (cs ! 0) = GDP (valid_rows (rows data) c ! 0) \<and>
            (\<forall>i. 0 < i \<and> i < length cs \<longrightarrow> item_type (cs ! i) \<noteq> Base)))"
proof (intro conjI impI)
  assume "valid_rows (rows data) c = []"
  then show "buildWaterfall (rows data) c = []" and "draw (rows data) c = None"
    by (simp_all add: buildWaterfall_unfold draw_unfold)
next
  let ?valid = "valid_rows (rows data) c"
  let ?items = "buildWaterfall (rows data) c"
  let ?cs = "compute_pass 0 (Fin 0) ?items"
  assume ne: "?valid \<noteq> []"
  then have items_ne: "?items \<noteq> []"
    using length_buildWaterfall [of "rows data" c] by auto
  have len: "length ?cs = length ?valid"
    by (simp add: length_compute_pass length_buildWaterfall)
  have first: "?items ! 0 = base_item (?valid ! 0)"
    using ne by (rule hd_buildWaterfall)
  have "?valid ! 0 \<in> set ?valid"
    using ne by simp
  then have fin: "js_isFinite (GDP (?valid ! 0))"
    by (rule valid_rows_finite)
  have pos: "0 < length ?items"
    using items_ne by simp
  have kind0: "item_type (?cs ! 0) = Base"
    using compute_pass_fields [OF pos, of 0 "Fin 0"] first by (simp add: base_item_def)
  have st: "bar_start (?cs ! 0) = Fin 0"
    using items_ne by (rule compute_pass_zero_head)
  have en: "bar_end (?cs ! 0) = GDP (?valid ! 0)"
    using compute_pass_zero_head(2) [OF items_ne, of "Fin 0"] first fin
    by (simp add: base_item_def fin_or_zero_finite)
  have cu: "cumulative (?cs ! 0) = GDP (?valid ! 0)"
    using compute_pass_fields [OF pos, of 0 "Fin 0"] en by simp
  have others: "\<forall>i. 0 < i \<and> i < length ?cs \<longrightarrow> item_type (?cs ! i) \<noteq> Base"
  proof (intro allI impI)
    fix i
    assume i: "0 < i \<and> i < length ?cs"
    then have lt: "i < length ?items"
      by (simp add: length_compute_pass)
    then have "i < length ?valid"
      by (simp add: length_buildWaterfall)
    with i have "?items ! i = delta_item (?valid ! (i - 1)) (?valid ! i)"
      by (simp add: nth_buildWaterfall)
    with compute_pass_fields [OF lt, of 0 "Fin 0"] show "item_type (?cs ! i) \<noteq> Base"
      by (simp add: delta_item_kind)
  qed
  from len kind0 st en cu others show "\<exists>cs. draw (rows data) c = Some cs \<and>
            length cs = length ?valid \<and>
            item_type (cs ! 0) = Base \<and>
            bar_start (cs ! 0) = Fin 0 \<and>
            bar_end (cs ! 0) = GDP (?valid ! 0) \<and>
            cumulative (cs ! 0) = GDP (?valid ! 0) \<and>
            (\<forall>i. 0 < i \<and> i < length cs \<longrightarrow> item_type (cs ! i) \<noteq> Base)"
    using ne by (simp add: draw_unfold)
qed

theorem base_item_is_first_witness:
  "valid_rows (rows germany_data) ''Germany'' \<noteq> [] \<and>
   valid_rows (rows germany_data) ''France'' = [] \<and>
   draw (rows germany_data) ''France'' = None \<and>
   (\<exists>cs. draw (rows germany_data) ''Germany'' = Some cs \<and> length cs = 2 \<and>
         item_type (cs ! 0) = Base \<and> bar_start (cs ! 0) = Fin 0 \<and>
         bar_end (cs ! 0) = Fin 1 \<and> cumulative (cs ! 0) = Fin 1 \<and>
         0 < (1::nat) \<and> 1 < length cs \<and> item_type (cs ! 1) \<noteq> Base)"
proof -
  have ne: "valid_rows (rows germany_data) ''Germany'' \<noteq> []"
    by (simp only: valid_rows_germany) (simp add: rows_germany)
  have em: "valid_rows (rows germany_data) ''France'' = []"
    by (simp add: rows_germany valid_rows_def sorted_group_def grouped_get_def js_sort_def)
  from base_item_is_first [of germany_data "''France''"] em
  have none: "draw (rows germany_data) ''France'' = None"
    by simp
  from base_item_is_first [of germany_data "''Germany''"] ne
  obtain cs where cs: "draw (rows germany_data) ''Germany'' = Some cs"
      "length cs = length (valid_rows (rows germany_data) ''Germany'')"
      "item_type (cs ! 0) = Base" "bar_start (cs ! 0) = Fin 0"
      "bar_end (cs ! 0) = GDP (valid_rows (rows germany_data) ''Germany'' ! 0)"
      "cumulative (cs ! 0) = GDP (valid_rows (rows germany_data) ''Germany'' ! 0)"
      "\<forall>i. 0 < i \<and> i < length cs \<longrightarrow> item_type (cs ! i) \<noteq> Base"
    by blast
  have len: "length cs = 2"
    using cs(2) by (simp only: valid_rows_germany) (simp add: rows_germany)
  have first: "GDP (valid_rows (rows germany_data) ''Germany'' ! 0) = Fin 1"
    by (simp only: valid_rows_germany) (simp add: rows_germany)
  have "item_type (cs ! 1) \<noteq> Base"
    using cs(7) len by simp
  with ne em none cs len first show ?thesis
    by simp
qed

section \<open>A delta of zero\<close>

text \<open>
  Claim C6.  Every item after the first one, of \<open>buildWaterfall\<close> as of
  \<open>computeWaterfall\<close>, whose delta is exactly 0 (\<open>+0\<close> or \<open>-0\<close>) is an increase.
\<close>

theorem zero_delta_is_increase:
  "(\<forall>i. 0 < i \<and> i < length (buildWaterfall rws c) \<and>
        js_eq (item_value (buildWaterfall rws c ! i)) (Fin 0) \<longrightarrow>
        item_type (buildWaterfall rws c ! i) = Increase) \<and>
   (\<forall>i. 0 < i \<and> i < length (computeWaterfall ds) \<and>
        js_eq (wf_value (computeWaterfall ds ! i)) (Fin 0) \<longrightarrow>
        wf_type (computeWaterfall ds ! i) = Increase)"
proof (intro conjI allI impI)
  fix i
  assume a: "0 < i \<and> i < length (buildWaterfall rws c) \<and>
             js_eq (item_value (buildWaterfall rws c ! i)) (Fin 0)"
  then have "buildWaterfall rws c ! i = delta_item (valid_rows rws c ! (i - 1)) (valid_rows rws c ! i)"
    by (simp add: nth_buildWaterfall length_buildWaterfall)
  with a delta_item_kind [of "valid_rows rws c ! (i - 1)" "valid_rows rws c ! i"]
  show "item_type (buildWaterfall rws c ! i) = Increase"
    by (simp add: js_ge_zero)
next
  fix i
  assume a: "0 < i \<and> i < length (computeWaterfall ds) \<and>
             js_eq (wf_value (computeWaterfall ds ! i)) (Fin 0)"
  then have "computeWaterfall ds ! i = step_item (ds ! (i - 1)) (ds ! i)"
    by (simp add: nth_computeWaterfall length_computeWaterfall)
  with a step_item_kind [of "ds ! (i - 1)" "ds ! i"]
  show "wf_type (computeWaterfall ds ! i) = Increase"
    by (simp add: js_ge_zero)
qed

lemma sub_10_10: "js_sub (Fin 10) (Fin 10) = Fin 0" by code_simp

lemma rows_flat:
  "rows flat_data =
     [\<lparr>country = Some ''X'', year = Fin 2000, GDP = Fin 10,
       raw = [(''Country Name'', ''X''), (''Year'', ''2000''), (''GDP'', ''10'')]\<rparr>,
      \<lparr>country = Some ''X'', year = Fin 2001, GDP = Fin 10,
       raw = [(''Country Name'', ''X''), (''Year'', ''2001''), (''GDP'', ''10'')]\<rparr>]"
  by (simp add: flat_data_def table_simps rows_gdp_header_simps year_simps parseNum_simps)

lemma buildWaterfall_flat:
  "buildWaterfall (rows flat_data) ''X'' =
     [\<lparr>item_year = Fin 2000, item_value = Fin 10, item_type = Base\<rparr>,
      \<lparr>item_year = Fin 2001, item_value = Fin 0, item_type = Increase\<rparr>]"
proof -
  have valid: "valid_rows (rows flat_data) ''X'' = rows flat_data"
    by (simp add: rows_flat valid_rows_def sorted_group_def grouped_get_def js_sort_def
        year_simps)
  show ?thesis
    by (simp add: buildWaterfall_unfold valid)
       (simp add: rows_flat base_item_def delta_item_def sub_10_10 ge_pos)
qed

lemma clean_rows_flat:
  "clean_rows ''Country Name'' ''Year'' ''GDP'' flat_data =
     [\<lparr>c_country = ''X'', c_year = Fin 2000, gdp = Fin 10\<rparr>,
      \<lparr>c_country = ''X'', c_year = Fin 2001, gdp = Fin 10\<rparr>]"
  by (simp add: flat_data_def table_simps clean_rows_gdp_header_simps year_simps parseNum_simps)

theorem zero_delta_is_increase_witness:
  "0 < (1::nat) \<and> 1 < length (buildWaterfall (rows flat_data) ''X'') \<and>
   js_eq (item_value (buildWaterfall (rows flat_data) ''X'' ! 1)) (Fin 0) \<and>
   item_type (buildWaterfall (rows flat_data) ''X'' ! 1) = Increase \<and>
   1 < length (computeWaterfall (clean_rows ''Country Name'' ''Year'' ''GDP'' flat_data)) \<and>
   js_eq (wf_value (computeWaterfall (clean_rows ''Country Name'' ''Year'' ''GDP'' flat_data) ! 1)) (Fin 0) \<and>
   wf_type (computeWaterfall (clean_rows ''Country Name'' ''Year'' ''GDP'' flat_data) ! 1) = Increase"
proof -
  let ?items = "buildWaterfall (rows flat_data) ''X''"
  let ?ws = "computeWaterfall (clean_rows ''Country Name'' ''Year'' ''GDP'' flat_data)"
  have h1: "0 < (1::nat) \<and> 1 < length ?items \<and> js_eq (item_value (?items ! 1)) (Fin 0)"
    by (simp add: buildWaterfall_flat js_eq_def)
  have h2: "0 < (1::nat) \<and> 1 < length ?ws \<and> js_eq (wf_value (?ws ! 1)) (Fin 0)"
    by (simp add: clean_rows_flat computeWaterfall_unfold step_item_def num_or_Fin sub_10_10
        js_eq_def)
  from zero_delta_is_increase [of "rows flat_data" "''X''"
      "clean_rows ''Country Name'' ''Year'' ''GDP'' flat_data"] h1 h2
  have "item_type (?items ! 1) = Increase" and "wf_type (?ws ! 1) = Increase"
    by blast+
  with h1 h2 show ?thesis by simp
qed

section \<open>Row cleaning\<close>















lemma js_trim_2001: "js_trim ''2001'' = ''2001''" by code_simp




section \<open>Column inference\<close>

lemma starts_with_ci_iff: "starts_with_ci pat k = (\<exists>suf. map ascii_lower k = pat @ suf)"
proof (induction pat k rule: starts_with_ci.induct)
  case (1 k)
  show ?case by simp
next
  case (2 p ps)
  show ?case by simp
next
  case (3 p ps c cs)
  then show ?case by auto
qed

lemma regex_test_ci_iff:
  "regex_test_ci pat k = (\<exists>pre suf. map ascii_lower k = pre @ pat @ suf)"
proof (induction k)
  case Nil
  show ?case by auto
next
  case (Cons c cs)
  show ?case
  proof
    assume "regex_test_ci pat (c # cs)"
    then consider "starts_with_ci pat (c # cs)" | "regex_test_ci pat cs"
      by auto
    then show "\<exists>pre suf. map ascii_lower (c # cs) = pre @ pat @ suf"
    proof cases
      case 1
      then obtain suf where "map ascii_lower (c # cs) = pat @ suf"
        by (auto simp: starts_with_ci_iff)
      then have "map ascii_lower (c # cs) = [] @ pat @ suf" by simp
      then show ?thesis by blast
    next
      case 2
      with Cons obtain pre suf where "map ascii_lower cs = pre @ pat @ suf"
        by auto
      then have "map ascii_lower (c # cs) = (ascii_lower c # pre) @ pat @ suf" by simp
      then show ?thesis by blast
    qed
  next
    assume "\<exists>pre suf. map ascii_lower (c # cs) = pre @ pat @ suf"
    then obtain pre suf where eq: "map ascii_lower (c # cs) = pre @ pat @ suf"
      by blast
    show "regex_test_ci pat (c # cs)"
    proof (cases pre)
      case Nil
      with eq have "starts_with_ci pat (c # cs)"
        by (auto simp: starts_with_ci_iff)
      then show ?thesis by simp
    next
      case (Cons p pre')
      with eq have "map ascii_lower cs = pre' @ pat @ suf" by simp
      with Cons.IH have "regex_test_ci pat cs" by blast
      then show ?thesis by simp
    qed
  qed
qed

lemma find_or:
  "find P xs = None \<Longrightarrow> find (\<lambda>k. Q k \<or> P k) xs = find Q xs"
  by (induction xs) (auto split: if_splits)

lemma str_or_find:
  assumes "\<not> P []"
  shows "str_or (find P keys) b = (case find P keys of Some k \<Rightarrow> Some k | None \<Rightarrow> b)"
proof (cases "find P keys")
  case None
  then show ?thesis by (simp add: str_or_def truthy_str_def)
next
  case (Some k)
  then have "P k" by (auto simp: find_Some_iff)
  with assms have "k \<noteq> []" by auto
  with Some show ?thesis by (simp add: str_or_def truthy_str_def)
qed

lemma map_fst_object_literal:
  "map fst ps = map fst ps' \<Longrightarrow> map fst r = map fst r' \<Longrightarrow>
   map fst (foldl (\<lambda>r (k, v). if k = ''__proto__'' then r else define_property k v r) r ps) =
   map fst (foldl (\<lambda>r (k, v). if k = ''__proto__'' then r else define_property k v r) r' ps')"
proof (induction ps arbitrary: ps' r r')
  case Nil
  then show ?case by simp
next
  case (Cons p ps)
  obtain k v where p: "p = (k, v)"
    by (cases p)
  from Cons.prems(1) p obtain v' qs where ps': "ps' = (k, v') # qs" "map fst ps = map fst qs"
    by (cases ps') auto
  have "map fst (if k = ''__proto__'' then r else define_property k v r) =
      map fst (if k = ''__proto__'' then r' else define_property k v' r')"
    using Cons.prems(2) by (simp add: map_fst_define_property)
  with Cons.IH [OF ps'(2)] show ?case
    by (simp add: p ps'(1))
qed

lemma map_fst_dsv_row: "map fst (dsv_row header d) = map fst (dsv_row header d')"
  unfolding dsv_row_def by (rule map_fst_object_literal) simp_all

lemma map_fst_object_literal_plain:
  "distinct (map fst r @ map fst ps) \<Longrightarrow> ''__proto__'' \<notin> set (map fst ps) \<Longrightarrow>
   map fst (foldl (\<lambda>r (k, v). if k = ''__proto__'' then r else define_property k v r) r ps) =
   map fst r @ map fst ps"
proof (induction ps arbitrary: r)
  case Nil
  then show ?case by simp
next
  case (Cons p ps)
  obtain k v where p: "p = (k, v)"
    by (cases p)
  from Cons.prems p have k: "k \<noteq> ''__proto__''" "k \<notin> set (map fst r)"
    by auto
  then have step: "map fst (define_property k v r) = map fst r @ [k]"
    by (simp add: map_fst_define_property)
  from Cons.prems p have "distinct ((map fst r @ [k]) @ map fst ps)"
    and np: "''__proto__'' \<notin> set (map fst ps)"
    by simp_all
  then have "distinct (map fst (define_property k v r) @ map fst ps)"
    by (simp only: step)
  from this np
  have "map fst (foldl (\<lambda>r (k, v). if k = ''__proto__'' then r else define_property k v r)
                 (define_property k v r) ps) = map fst (define_property k v r) @ map fst ps"
    by (rule Cons.IH)
  with k(1) show ?case
    by (simp add: p step)
qed

lemma map_fst_dsv_row_plain:
  assumes "distinct header" and "''__proto__'' \<notin> set header"
  shows "map fst (dsv_row header d) = header"
proof -
  let ?ps = "zip header (map (field_or_empty d) [0 ..< length header])"
  have keys: "map fst ?ps = header"
    by simp
  have "map fst (dsv_row header d) = map fst ([] :: raw_row) @ map fst ?ps"
    unfolding dsv_row_def
  proof (rule map_fst_object_literal_plain)
    show "distinct (map fst ([] :: raw_row) @ map fst ?ps)"
      using assms(1) by simp
    show "''__proto__'' \<notin> set (map fst ?ps)"
      using assms(2) by simp
  qed
  then show ?thesis
    by (simp only: keys list.map append_Nil)
qed

lemma object_keys_dsv_row:
  "object_keys (dsv_row header d) = object_keys (dsv_row header d')"
  using map_fst_dsv_row [of header d d'] by (simp add: object_keys_def)

lemma object_keys_plain_header:
  assumes "distinct header"
    and "list_all (\<lambda>k. \<not> is_array_index k \<and> k \<noteq> ''__proto__'') header"
  shows "object_keys (dsv_row header d) = header"
proof -
  from assms(2) have "''__proto__'' \<notin> set header"
    by (auto simp: list_all_iff)
  with assms(1) have keys: "map fst (dsv_row header d) = header"
    by (rule map_fst_dsv_row_plain)
  from assms(2) have "list_all (\<lambda>k. \<not> is_array_index k) (map fst (dsv_row header d))"
    by (simp add: keys list_all_iff)
  then show ?thesis
    by (simp add: object_keys_plain keys)
qed

lemma plain_row_keys: "object_keys plain_row = [''a'', ''b'', ''c'']"
proof -
  have "list_all (\<lambda>k. \<not> is_array_index k) [''a'', ''b'', ''c'']"
    by code_simp
  then have "list_all (\<lambda>k. \<not> is_array_index k) (map fst plain_row)"
    by (simp add: plain_row_def)
  then have "object_keys plain_row = map fst plain_row"
    by (rule object_keys_plain)
  then show ?thesis
    by (simp add: plain_row_def)
qed

text \<open>
  Claim C8, as stated, fails: there is no default for the year and the GDP column.  On a
  first row with the columns \<open>a\<close>, \<open>b\<close>, \<open>c\<close> the country key is the second column,
  the year key and the GDP key are \<open>undefined\<close>, and every row is dropped.
\<close>

theorem column_inference_counterexample:
  "countryKey plain_row = Some ''b'' \<and> yearKey plain_row = None \<and> gdpKey plain_row = None \<and>
   rows [plain_row] = []"
proof -
  note keys = plain_row_keys
  have f1: "find (regex_test_ci ''country'') [''a'', ''b'', ''c''] = None" by code_simp
  have f2: "find (regex_test_ci ''year'') [''a'', ''b'', ''c''] = None" by code_simp
  have f3: "find (\<lambda>k. regex_test_ci ''yr'' k \<or> regex_test_ci ''year'' k) [''a'', ''b'', ''c''] = None"
    by code_simp
  have f4: "find (\<lambda>k. map ascii_lower k = ''gdp'') [''a'', ''b'', ''c''] = None" by code_simp
  have f5: "find (regex_test_ci ''gdp'') [''a'', ''b'', ''c''] = None" by code_simp
  have ck: "countryKey plain_row = Some ''b''"
    unfolding countryKey_def keys f1 by (simp add: str_or_def truthy_str_def js_nth_def)
  have yk: "yearKey plain_row = None"
    unfolding yearKey_def keys f2 f3 by (simp add: str_or_def truthy_str_def)
  have gk: "gdpKey plain_row = None"
    unfolding gdpKey_def keys f4 f5 by (simp add: str_or_def truthy_str_def)
  have "unary_plus (js_get plain_row None) = NaN"
    by (simp add: plain_row_def js_get_def unary_plus_def)
  then have "rows [plain_row] = []"
    by (simp add: rows_def yk mk_row_def keep_row_def)
  with ck yk gk show ?thesis by simp
qed

text \<open>
  Claim C8, amended.  Column inference is a function of the keys of the first row object,
  in the order of \<open>Object.keys\<close>: first rows with the same keys give the same three keys,
  and the rows parsed under the same header give the same three keys whatever their d
  are.  For a header of distinct names, none of them an array index or \<open>__proto__\<close>, the
  keys are the column names in the order of the header.  The country key is the first key
  with the substring \<open>country\<close>, in any case, and the second key when there is none; the
  year key is the first key with the substring \<open>year\<close>, else the first with the substring
  \<open>yr\<close>, else \<open>undefined\<close>; the GDP key is the first key equal to \<open>gdp\<close> up to case,
  else the first with the substring \<open>gdp\<close>, else \<open>undefined\<close>.  There is no default for
  the year and the GDP key: with the key \<open>undefined\<close>, a row that has no property of the
  name \<open>undefined\<close> is dropped (its year is not a number), respectively has a GDP that is
  not a number.
\<close>

theorem column_inference:
  "(object_keys r0 = object_keys r0' \<longrightarrow>
      countryKey r0 = countryKey r0' \<and> yearKey r0 = yearKey r0' \<and> gdpKey r0 = gdpKey r0') \<and>
   countryKey (dsv_row header d) = countryKey (dsv_row header d') \<and>
   yearKey (dsv_row header d) = yearKey (dsv_row header d') \<and>
   gdpKey (dsv_row header d) = gdpKey (dsv_row header d') \<and>
   (distinct header \<and> list_all (\<lambda>k. \<not> is_array_index k \<and> k \<noteq> ''__proto__'') header \<longrightarrow>
      object_keys (dsv_row header d) = header) \<and>
   countryKey r0 = (case find (regex_test_ci ''country'') (object_keys r0) of
                      Some k \<Rightarrow> Some k
                    | None \<Rightarrow> js_nth (object_keys r0) 1) \<and>
   yearKey r0 = (case find (regex_test_ci ''year'') (object_keys r0) of
                   Some k \<Rightarrow> Some k
                 | None \<Rightarrow> find (regex_test_ci ''yr'') (object_keys r0)) \<and>
   gdpKey r0 = (case find (\<lambda>k. map ascii_lower k = ''gdp'') (object_keys r0) of
                  Some k \<Rightarrow> Some k
                | None \<Rightarrow> find (regex_test_ci ''gdp'') (object_keys r0)) \<and>
   (\<forall>pat k. regex_test_ci pat k = (\<exists>pre suf. map ascii_lower k = pre @ pat @ suf)) \<and>
   (js_get r None = None \<longrightarrow>
      \<not> keep_row (mk_row ck None gk r) \<and> GDP (mk_row ck yk None r) = NaN)"
proof (intro conjI impI allI)
  assume "object_keys r0 = object_keys r0'"
  then show "countryKey r0 = countryKey r0'" "yearKey r0 = yearKey r0'" "gdpKey r0 = gdpKey r0'"
    by (simp_all add: countryKey_def yearKey_def gdpKey_def)
next
  note keys = object_keys_dsv_row [of header d d']
  show "countryKey (dsv_row header d) = countryKey (dsv_row header d')"
    by (simp add: countryKey_def keys)
  show "yearKey (dsv_row header d) = yearKey (dsv_row header d')"
    by (simp add: yearKey_def keys)
  show "gdpKey (dsv_row header d) = gdpKey (dsv_row header d')"
    by (simp add: gdpKey_def keys)
next
  assume "distinct header \<and> list_all (\<lambda>k. \<not> is_array_index k \<and> k \<noteq> ''__proto__'') header"
  then show "object_keys (dsv_row header d) = header"
    by (simp add: object_keys_plain_header)
next
  have "\<not> regex_test_ci ''country'' []" by simp
  then show "countryKey r0 = (case find (regex_test_ci ''country'') (object_keys r0) of
                      Some k \<Rightarrow> Some k
                    | None \<Rightarrow> js_nth (object_keys r0) 1)"
    unfolding countryKey_def by (rule str_or_find)
next
  have "\<not> regex_test_ci ''year'' []" by simp
  then have "yearKey r0 = (case find (regex_test_ci ''year'') (object_keys r0) of
                   Some k \<Rightarrow> Some k
                 | None \<Rightarrow> find (\<lambda>k. regex_test_ci ''yr'' k \<or> regex_test_ci ''year'' k) (object_keys r0))"
    unfolding yearKey_def by (rule str_or_find)
  then show "yearKey r0 = (case find (regex_test_ci ''year'') (object_keys r0) of
                   Some k \<Rightarrow> Some k
                 | None \<Rightarrow> find (regex_test_ci ''yr'') (object_keys r0))"
    by (simp add: find_or split: option.split)
next
  have "\<not> (map ascii_lower [] = ''gdp'')" by simp
  then show "gdpKey r0 = (case find (\<lambda>k. map ascii_lower k = ''gdp'') (object_keys r0) of
                  Some k \<Rightarrow> Some k
                | None \<Rightarrow> find (regex_test_ci ''gdp'') (object_keys r0))"
    unfolding gdpKey_def by (rule str_or_find)
next
  fix pat k
  show "regex_test_ci pat k = (\<exists>pre suf. map ascii_lower k = pre @ pat @ suf)"
    by (rule regex_test_ci_iff)
next
  assume none: "js_get r None = None"
  then show "\<not> keep_row (mk_row ck None gk r)"
    by (simp add: keep_row_def mk_row_def unary_plus_def)
  from none show "GDP (mk_row ck yk None r) = NaN"
    by (simp add: mk_row_def parseNum_def)
qed

lemma index_row_keys: "object_keys index_row = [''1'', ''a'', ''b'']"
  by code_simp

lemma find_country_index_row: "find (regex_test_ci ''country'') [''1'', ''a'', ''b''] = None"
  by code_simp

lemma gdp_header_distinct:
  "distinct gdp_header \<and> list_all (\<lambda>k. \<not> is_array_index k \<and> k \<noteq> ''__proto__'') gdp_header"
  by code_simp

theorem column_inference_witness:
  "object_keys (germany_data ! 0) = object_keys (germany_data ! 1) \<and>
   countryKey (germany_data ! 0) = countryKey (germany_data ! 1) \<and>
   yearKey (germany_data ! 0) = yearKey (germany_data ! 1) \<and>
   gdpKey (germany_data ! 0) = gdpKey (germany_data ! 1) \<and>
   countryKey (germany_data ! 0) = Some ''Country Name'' \<and>
   yearKey (germany_data ! 0) = Some ''Year'' \<and>
   gdpKey (germany_data ! 0) = Some ''GDP'' \<and>
   distinct gdp_header \<and>
   list_all (\<lambda>k. \<not> is_array_index k \<and> k \<noteq> ''__proto__'') gdp_header \<and>
   object_keys (dsv_row gdp_header [''Germany'', ''2000'', ''1.000,5'']) = gdp_header \<and>
   countryKey (dsv_row gdp_header [''Germany'', ''2000'', ''1.000,5'']) =
     countryKey (dsv_row gdp_header [''Germany'', ''2001'', ''1100'']) \<and>
   object_keys index_row = [''1'', ''a'', ''b''] \<and> countryKey index_row = Some ''a'' \<and>
   js_get plain_row None = None \<and>
   \<not> keep_row (mk_row (Some ''b'') None None plain_row) \<and>
   GDP (mk_row (Some ''b'') None None plain_row) = NaN"
proof -
  have keys: "object_keys (germany_data ! 0) = gdp_header" "object_keys (germany_data ! 1) = gdp_header"
    by (simp_all add: germany_data_def table_def dsv_row_gdp_header gdp_header_keys gdp_header_def)
  then have same: "object_keys (germany_data ! 0) = object_keys (germany_data ! 1)"
    by simp
  note main = column_inference [of "germany_data ! 0" "germany_data ! 1" gdp_header
      "[''Germany'', ''2000'', ''1.000,5'']" "[''Germany'', ''2001'', ''1100'']"
      plain_row "Some ''b''" None None]
  note other = column_inference [of index_row index_row gdp_header
      "[''Germany'', ''2000'', ''1.000,5'']" "[''Germany'', ''2001'', ''1100'']"
      plain_row "Some ''b''" None None]
  from main same have eq: "countryKey (germany_data ! 0) = countryKey (germany_data ! 1) \<and>
      yearKey (germany_data ! 0) = yearKey (germany_data ! 1) \<and>
      gdpKey (germany_data ! 0) = gdpKey (germany_data ! 1)"
    by blast
  from main have "countryKey (germany_data ! 0) =
      (case find (regex_test_ci ''country'') (object_keys (germany_data ! 0)) of
         Some k \<Rightarrow> Some k | None \<Rightarrow> js_nth (object_keys (germany_data ! 0)) 1)"
    by blast
  then have ck: "countryKey (germany_data ! 0) = Some ''Country Name''"
    by (simp add: keys find_country_gdp_header)
  from main have "yearKey (germany_data ! 0) =
      (case find (regex_test_ci ''year'') (object_keys (germany_data ! 0)) of
         Some k \<Rightarrow> Some k | None \<Rightarrow> find (regex_test_ci ''yr'') (object_keys (germany_data ! 0)))"
    by blast
  then have yk: "yearKey (germany_data ! 0) = Some ''Year''"
    by (simp add: keys find_year_gdp_header)
  from main have "gdpKey (germany_data ! 0) =
      (case find (\<lambda>k. map ascii_lower k = ''gdp'') (object_keys (germany_data ! 0)) of
         Some k \<Rightarrow> Some k | None \<Rightarrow> find (regex_test_ci ''gdp'') (object_keys (germany_data ! 0)))"
    by blast
  then have gk: "gdpKey (germany_data ! 0) = Some ''GDP''"
    by (simp add: keys find_gdp_gdp_header)
  note plain = gdp_header_distinct
  from main plain have hk: "object_keys (dsv_row gdp_header [''Germany'', ''2000'', ''1.000,5'']) = gdp_header"
    by blast
  from main have d: "countryKey (dsv_row gdp_header [''Germany'', ''2000'', ''1.000,5'']) =
      countryKey (dsv_row gdp_header [''Germany'', ''2001'', ''1100''])"
    by blast
  from other have "countryKey index_row =
      (case find (regex_test_ci ''country'') (object_keys index_row) of
         Some k \<Rightarrow> Some k | None \<Rightarrow> js_nth (object_keys index_row) 1)"
    by blast
  then have ik: "countryKey index_row = Some ''a''"
    by (simp add: index_row_keys find_country_index_row js_nth_def)
  have none: "js_get plain_row None = None"
    by (simp add: plain_row_def js_get_def)
  with main have drop: "\<not> keep_row (mk_row (Some ''b'') None None plain_row) \<and>
      GDP (mk_row (Some ''b'') None None plain_row) = NaN"
    by blast
  from same eq ck yk gk plain hk d index_row_keys ik none drop show ?thesis
    by blast
qed

section \<open>The two constructions side by side\<close>














section \<open>A country without rows\<close>

lemma rows_missing:
  "rows missing_data =
     [\<lparr>country = Some ''X'', year = Fin 2000, GDP = NaN,
       raw = [(''Country Name'', ''X''), (''Year'', ''2000''), (''GDP'', ''nan'')]\<rparr>]"
  by (simp add: missing_data_def table_simps rows_gdp_header_simps year_simps parseNum_simps)

lemma clean_rows_missing:
  "clean_rows ''Country Name'' ''Year'' ''GDP'' missing_data =
     [\<lparr>c_country = ''X'', c_year = Fin 2000, gdp = NaN\<rparr>]"
  by (simp add: missing_data_def table_simps clean_rows_gdp_header_simps year_simps
      parseNum_simps)

text \<open>
  Claim C10, as stated, fails for the variant with \<open>computeWaterfall\<close>: on the single row
  X, 2000, nan the name Y, which has no rows, gets the no-data text, but the country X,
  whose only row has an invalid GDP, gets a chart of one item with end 0.
\<close>

theorem absent_country_counterexample:
  "drawForCountry (clean_rows ''Country Name'' ''Year'' ''GDP'' missing_data) ''Y'' = None \<and>
   drawForCountry (clean_rows ''Country Name'' ''Year'' ''GDP'' missing_data) ''X'' =
     Some [\<lparr>wf_type = Start, wf_year = Fin 2000, wf_value = NaN,
            wf_start = Fin 0, wf_end = Fin 0\<rparr>]"
  by (simp add: clean_rows_missing drawForCountry_unfold js_sort_def computeWaterfall_unfold
      start_item_def num_or_NaN)

text \<open>
  Claim C10, amended.  \<open>buildWaterfall\<close> of \<open>script.js\<close> is defined for every country
  name and has no failing step: for a name without a group it returns no item (through
  the fallback to the empty array), and \<open>draw\<close> shows the no-data title; a country whose
  rows all have an invalid GDP gets the same result.  In the variant with
  \<open>computeWaterfall\<close>, \<open>drawForCountry\<close> shows the no-data text for a name without rows,
  and for a country with rows it builds one item per row, whether the GDP is valid or not.
\<close>

theorem absent_country:
  "(grouped_get rws c = None \<longrightarrow> buildWaterfall rws c = [] \<and> draw rws c = None) \<and>
   ((\<forall>d \<in> set rws. country d = Some c \<longrightarrow> js_isNaN (GDP d)) \<longrightarrow>
      buildWaterfall rws c = [] \<and> draw rws c = None) \<and>
   ((\<forall>d \<in> set cl. c_country d \<noteq> c') \<longrightarrow> drawForCountry cl c' = None) \<and>
   ((\<exists>d \<in> set cl. c_country d = c') \<longrightarrow>
      (\<exists>ws. drawForCountry cl c' = Some ws \<and>
            length ws = length (filter (\<lambda>d. c_country d = c') cl)))"
proof (intro conjI impI)
  assume "grouped_get rws c = None"
  then have "valid_rows rws c = []"
    by (simp add: valid_rows_def sorted_group_def js_sort_def)
  then show "buildWaterfall rws c = []" and "draw rws c = None"
    by (simp_all add: buildWaterfall_unfold draw_unfold)
next
  assume "\<forall>d \<in> set rws. country d = Some c \<longrightarrow> js_isNaN (GDP d)"
  then have "set (valid_rows rws c) = {}"
    by (auto simp: set_valid_rows)
  then have "valid_rows rws c = []"
    by simp
  then show "buildWaterfall rws c = []" and "draw rws c = None"
    by (simp_all add: buildWaterfall_unfold draw_unfold)
next
  assume "\<forall>d \<in> set cl. c_country d \<noteq> c'"
  then have "filter (\<lambda>d. c_country d = c') cl = []"
    by (simp add: filter_empty_conv)
  then show "drawForCountry cl c' = None"
    by (simp add: drawForCountry_unfold)
next
  assume "\<exists>d \<in> set cl. c_country d = c'"
  then have "filter (\<lambda>d. c_country d = c') cl \<noteq> []"
    by (simp add: filter_empty_conv)
  then show "\<exists>ws. drawForCountry cl c' = Some ws \<and>
            length ws = length (filter (\<lambda>d. c_country d = c') cl)"
    by (simp add: drawForCountry_unfold length_computeWaterfall length_js_sort)
qed

theorem absent_country_witness:
  "grouped_get (rows missing_data) ''Y'' = None \<and>
   buildWaterfall (rows missing_data) ''Y'' = [] \<and> draw (rows missing_data) ''Y'' = None \<and>
   js_isNaN (GDP (rows missing_data ! 0)) \<and> length (rows missing_data) = 1 \<and>
   buildWaterfall (rows missing_data) ''X'' = [] \<and> draw (rows missing_data) ''X'' = None \<and>
   drawForCountry (clean_rows ''Country Name'' ''Year'' ''GDP'' missing_data) ''Y'' = None \<and>
   (\<exists>ws. drawForCountry (clean_rows ''Country Name'' ''Year'' ''GDP'' missing_data) ''X'' = Some ws \<and>
         length ws = 1)"
proof -
  let ?cl = "clean_rows ''Country Name'' ''Year'' ''GDP'' missing_data"
  have h1: "grouped_get (rows missing_data) ''Y'' = None"
    by (simp add: rows_missing grouped_get_def)
  have h2: "\<forall>d \<in> set (rows missing_data). country d = Some ''X'' \<longrightarrow> js_isNaN (GDP d)"
    by (simp add: rows_missing)
  have h3: "\<forall>d \<in> set ?cl. c_country d \<noteq> ''Y''"
    by (simp add: clean_rows_missing)
  have h4: "\<exists>d \<in> set ?cl. c_country d = ''X''"
    by (simp add: clean_rows_missing)
  have n: "length (filter (\<lambda>d. c_country d = ''X'') ?cl) = 1"
    by (simp add: clean_rows_missing)
  have r: "js_isNaN (GDP (rows missing_data ! 0))" "length (rows missing_data) = 1"
    by (simp_all add: rows_missing)
  from absent_country [of "rows missing_data" "''Y''" ?cl "''Y''"] h1 h3
  have a: "buildWaterfall (rows missing_data) ''Y'' = [] \<and> draw (rows missing_data) ''Y'' = None \<and>
      drawForCountry ?cl ''Y'' = None"
    by blast
  from absent_country [of "rows missing_data" "''X''" ?cl "''X''"] h2 h4
  have b: "buildWaterfall (rows missing_data) ''X'' = [] \<and> draw (rows missing_data) ''X'' = None \<and>
      (\<exists>ws. drawForCountry ?cl ''X'' = Some ws \<and>
            length ws = length (filter (\<lambda>d. c_country d = ''X'') ?cl))"
    by blast
  from h1 a b n r show ?thesis
    by simp
qed

end
